theory Spec2Isabelle
  imports Main
begin

section \<open>Time\<close>

text \<open>
  The source handles time through moment.js objects and JavaScript \<open>Date\<close>s. An instant is
  the number of milliseconds since the Unix epoch; a calendar day is the number of the local
  day counted from 1970-01-01, which is what \<open>format("YYYY-MM-DD")\<close> prints. The local
  zone is a fixed offset \<open>tz\<close> (milliseconds east of UTC) with no daylight-saving change,
  so that \<open>add(1, "days")\<close> adds exactly \<open>DAY\<close> milliseconds.
\<close>

type_synonym instant = int
type_synonym day = int

definition DAY :: int where
  "DAY = 86400000"

definition MINUTE :: int where
  "MINUTE = 60000"

text \<open>\<open>m.format("YYYY-MM-DD")\<close>: the local calendar day of an instant.\<close>

definition localDay :: "int \<Rightarrow> instant \<Rightarrow> day" where
  "localDay tz t = (t + tz) div DAY"

text \<open>\<open>moment("YYYY-MM-DD")\<close>: local midnight of a calendar day.\<close>

definition dayStart :: "int \<Rightarrow> day \<Rightarrow> instant" where
  "dayStart tz d = d * DAY - tz"

text \<open>\<open>m.startOf("day")\<close> and \<open>m.endOf("day")\<close> (00:00:00.000 and 23:59:59.999).\<close>

definition startOfDay :: "int \<Rightarrow> instant \<Rightarrow> instant" where
  "startOfDay tz t = dayStart tz (localDay tz t)"

definition endOfDay :: "int \<Rightarrow> instant \<Rightarrow> instant" where
  "endOfDay tz t = startOfDay tz t + DAY - 1"

text \<open>
  moment's comparisons at day granularity, as its \<open>isSame\<close>, \<open>isAfter\<close>,
  \<open>isBefore\<close> and \<open>isSameOrAfter\<close> are implemented: the receiver \<open>a\<close> is widened
  to its day, the argument \<open>b\<close> is taken as the instant it is.
\<close>

definition isSame :: "int \<Rightarrow> instant \<Rightarrow> instant \<Rightarrow> bool" where
  "isSame tz a b = (startOfDay tz a \<le> b \<and> b \<le> endOfDay tz a)"

definition isAfter :: "int \<Rightarrow> instant \<Rightarrow> instant \<Rightarrow> bool" where
  "isAfter tz a b = (b < startOfDay tz a)"

definition isBefore :: "int \<Rightarrow> instant \<Rightarrow> instant \<Rightarrow> bool" where
  "isBefore tz a b = (endOfDay tz a < b)"

definition isSameOrAfter :: "int \<Rightarrow> instant \<Rightarrow> instant \<Rightarrow> bool" where
  "isSameOrAfter tz a b = (isSame tz a b \<or> isAfter tz a b)"

text \<open>\<open>a.diff(b, "days")\<close>: the difference in whole days, truncated towards zero.\<close>

definition diffDays :: "instant \<Rightarrow> instant \<Rightarrow> int" where
  "diffDays a b = (if a - b < 0 then - ((b - a) div DAY) else (a - b) div DAY)"

text \<open>
  \<open>m.format("YYYY-MM-DD HH:mm")\<close>, read back as a local time: seconds and milliseconds
  are lost, the zone is the local one.
\<close>

definition formatMinute :: "int \<Rightarrow> instant \<Rightarrow> instant" where
  "formatMinute tz t = ((t + tz) div MINUTE) * MINUTE - tz"

section \<open>Numbers in template strings\<close>

fun show_nat :: "nat \<Rightarrow> string" where
  "show_nat n =
     (if n < 10 then [''0123456789'' ! n]
      else show_nat (n div 10) @ [''0123456789'' ! (n mod 10)])"

declare show_nat.simps [simp del]

definition show_int :: "int \<Rightarrow> string" where
  "show_int i = (if i < 0 then ''-'' @ show_nat (nat (- i)) else show_nat (nat i))"

section \<open>Data model\<close>

text \<open>
  Modelled from the spec: the type declarations of \<open>helper/types\<close> (GoogleCalendar,
  GoogleEvent, GoogleEventList, EventCacheValue, ListOptions) are not among the sources.
  An event endpoint is either an all-day date or a date-time; a calendar has an identifier
  and a display name; an event has an identifier, its owning calendar, a title, start and
  end, a status, a colour and the event-type tag.
\<close>

datatype EventTime = AllDay day | DateTime instant

text \<open>The optional field \<open>dateTime\<close> of an endpoint; an all-day endpoint has none.\<close>

fun dateTime :: "EventTime \<Rightarrow> instant option" where
  "dateTime (DateTime t) = Some t"
| "dateTime (AllDay d) = None"

record GoogleCalendar =
  cal_id :: string
  cal_summary :: string
  cal_colorId :: string

record GoogleEvent =
  event_id :: string
  parent :: "GoogleCalendar option"
  summary :: string
  start :: EventTime
  finish :: EventTime
  status :: string
  colorId :: string
  eventType :: string

record GoogleEventList =
  items :: "GoogleEvent list"
  nextPageToken :: "string option"

record EventCacheValue =
  events :: "GoogleEvent list"
  updated :: instant

record ListOptions =
  opt_startDate :: "instant option"
  opt_endDate :: "instant option"
  opt_exclude :: "string list option"
  opt_include :: "string list option"

section \<open>resolveMultiDayEventsHelper\<close>

text \<open>The title template \<open>${title} (Day ${dayCount}/${totalDays})\<close>.\<close>

definition dayLabel :: "string \<Rightarrow> int \<Rightarrow> int \<Rightarrow> string" where
  "dayLabel title dayCount totalDays =
     title @ '' (Day '' @ show_int dayCount @ ''/'' @ show_int totalDays @ '')''"

text \<open>
  The do-while loop of the expander. \<open>tmp\<close> is the event being rewritten in place,
  \<open>startMoment\<close> the moving moment, \<open>extraEventsTmp\<close> the clones made so far. The
  body runs once before the condition is looked at.
\<close>

function multiDayLoop ::
  "int \<Rightarrow> string \<Rightarrow> int \<Rightarrow> instant \<Rightarrow> GoogleEvent \<Rightarrow> instant \<Rightarrow> int \<Rightarrow> GoogleEvent list
   \<Rightarrow> GoogleEvent \<times> GoogleEvent list" where
  "multiDayLoop tz title totalDays endMoment tmp startMoment dayCount extraEventsTmp =
     (let tmp1 = tmp\<lparr>summary := dayLabel title dayCount totalDays, eventType := ''multiDay''\<rparr>;
          extra1 = extraEventsTmp @ [tmp1];
          dayCount1 = dayCount + 1;
          startMoment1 = startMoment + DAY;
          tmp2 = tmp1\<lparr>start := DateTime (formatMinute tz startMoment1)\<rparr>
      in if \<not> isAfter tz startMoment1 endMoment
         then multiDayLoop tz title totalDays endMoment tmp2 startMoment1 dayCount1 extra1
         else (tmp2, extra1))"
  by pat_completeness auto

termination multiDayLoop
proof (relation "measure (\<lambda>(tz, title, totalDays, endMoment, tmp, startMoment, dayCount, extra).
        nat (endMoment - startOfDay tz startMoment + 1))", goal_cases)
  case 1
  show ?case by simp
next
  case (2 tz title totalDays endMoment tmp startMoment dayCount extraEventsTmp)
  have d: "0 < DAY"
    by (simp add: DAY_def)
  have "(startMoment + DAY + tz) div DAY = ((startMoment + tz) + 1 * DAY) div DAY"
    by (simp add: algebra_simps)
  also have "\<dots> = 1 + (startMoment + tz) div DAY"
    using d by (intro div_mult_self1) simp
  finally have "startOfDay tz (startMoment + DAY) = startOfDay tz startMoment + DAY"
    by (simp add: startOfDay_def dayStart_def localDay_def algebra_simps)
  with 2 d show ?case
    by (simp add: isAfter_def)
qed

declare multiDayLoop.simps [simp del]

text \<open>
  The range filter over the clones of one event (source lines 273-278). A clone always has
  a date-time start; \<open>moment(undefined)\<close>, which an all-day start would give, is the
  current time \<open>now\<close>.
\<close>

definition inRange :: "int \<Rightarrow> instant \<Rightarrow> instant option \<Rightarrow> instant option \<Rightarrow> GoogleEvent \<Rightarrow> bool" where
  "inRange tz now rangeStart rangeEnd event =
     (let startMoment = (case dateTime (start event) of Some t \<Rightarrow> t | None \<Rightarrow> now)
      in if (case rangeStart of Some d \<Rightarrow> isBefore tz startMoment d | None \<Rightarrow> False) then False
         else if (case rangeEnd of Some e \<Rightarrow> isSameOrAfter tz startMoment e | None \<Rightarrow> False) then False
         else True)"

text \<open>
  The body of the \<open>forEach\<close>: the event as it is left in the list, and the clones it adds
  to \<open>extraEvents\<close>. \<open>startOf\<close> and \<open>endOf\<close> change the moment they are called on, so
  after the computation of \<open>totalDays\<close> the loop starts from local midnight of the start
  day and compares against the end of the end day.
\<close>

definition expandEvent ::
  "int \<Rightarrow> instant \<Rightarrow> instant option \<Rightarrow> instant option \<Rightarrow> GoogleEvent \<Rightarrow> GoogleEvent \<times> GoogleEvent list" where
  "expandEvent tz now rangeStart rangeEnd tmp =
     (case dateTime (start tmp) of
        None \<Rightarrow> (tmp, [])
      | Some s \<Rightarrow>
          (case dateTime (finish tmp) of
             None \<Rightarrow> (tmp, [])
           | Some e \<Rightarrow>
               if isSame tz s e then (tmp, [])
               else
                 (let endMoment = endOfDay tz e;
                      startMoment = startOfDay tz s;
                      totalDays = diffDays endMoment startMoment + 1;
                      r = multiDayLoop tz (summary tmp) totalDays endMoment tmp startMoment 1 [];
                      extraEventsTmp = filter (inRange tz now rangeStart rangeEnd) (snd r)
                  in ((fst r)\<lparr>eventType := ''delete''\<rparr>, extraEventsTmp))))"

definition resolveMultiDayEventsHelper ::
  "int \<Rightarrow> instant \<Rightarrow> GoogleEvent list \<Rightarrow> instant option \<Rightarrow> instant option \<Rightarrow> GoogleEvent list" where
  "resolveMultiDayEventsHelper tz now totalEventList rangeStart rangeEnd =
     (let rs = map (expandEvent tz now rangeStart rangeEnd) totalEventList
      in map fst rs @ concat (map snd rs))"

section \<open>Collaborators and state\<close>

text \<open>
  Modelled from the spec: the plugin's settings object, the request wrapper, the login
  check, the colour directory and the notification sink are not among the sources. The
  settings carry the fields the sources read; a transport failure is the absence of a
  result; a notice is appended to a log.
\<close>

record Settings =
  useCustomClient :: bool
  refreshInterval :: int
  googleApiToken :: string
  calendarBlackList :: "(string \<times> string) list"
  defaultCalendar :: string

text \<open>
  What the request URL carries besides its constants: the calendar, \<open>timeMin\<close>,
  \<open>timeMax\<close> and the continuation token.
\<close>

record Request =
  req_calendar :: string
  timeMin :: instant
  timeMax :: instant
  pageToken :: "string option"

text \<open>
  The environment of one call: the zone offset, the clock (\<open>window.moment()\<close>, taken as
  constant during a call), \<open>callRequest\<close>, \<open>settingsAreCompleteAndLoggedIn()\<close>, the
  result of \<open>googleListCalendars()\<close> (already blacklist-filtered), \<open>allColorNames\<close> and
  \<open>getColorNameFromEvent\<close>.
\<close>

record Env =
  utcOffset :: int
  currentTime :: instant
  callRequest :: "Request \<Rightarrow> GoogleEventList option"
  loggedIn :: bool
  calendarList :: "GoogleCalendar list"
  allColorNames :: "string list"
  getColorNameFromEvent :: "GoogleEvent \<Rightarrow> string"

text \<open>
  The cache key \<open>JSON.stringify({day, calendar})\<close> is one-to-one on the pair of the day
  and the calendar identifier, which stands for it.
\<close>

type_synonym cache = "day \<times> string \<Rightarrow> EventCacheValue option"

record State =
  cachedEvents :: cache
  settings :: Settings
  notices :: "string list"

datatype error = TypeError

definition googleClearCachedEvents :: "State \<Rightarrow> State" where
  "googleClearCachedEvents st = st\<lparr>cachedEvents := Map.empty\<rparr>"

section \<open>requestEventsFromApi\<close>

definition resultSizes :: nat where
  "resultSizes = 2500"

text \<open>
  The token the URL carries: the test \<open>tmpRequestResult && tmpRequestResult.nextPageToken\<close>
  is false for a missing result, a missing token and the empty string.
\<close>

definition continuation :: "GoogleEventList option \<Rightarrow> string option" where
  "continuation prev =
     (case prev of
        None \<Rightarrow> None
      | Some r \<Rightarrow> (case nextPageToken r of
                    None \<Rightarrow> None
                  | Some t \<Rightarrow> if t = [] then None else Some t))"

text \<open>
  The pagination loop. Each round costs one unit of fuel; \<open>None\<close> is a loop that has not
  ended within the fuel given. \<open>prev\<close> is \<open>tmpRequestResult\<close> as the previous round
  left it. After a failed request the \<open>continue\<close> of the source jumps to the loop
  condition, which reads \<open>tmpRequestResult.items\<close> of the missing result: a TypeError.
\<close>

fun requestLoop ::
  "nat \<Rightarrow> Env \<Rightarrow> GoogleCalendar \<Rightarrow> instant \<Rightarrow> instant \<Rightarrow> GoogleEventList option
   \<Rightarrow> GoogleEvent list \<Rightarrow> string list \<Rightarrow> ((error + GoogleEvent list) \<times> string list) option" where
  "requestLoop 0 env cal startString endString prev totalEventList ns = None"
| "requestLoop (Suc fuel) env cal startString endString prev totalEventList ns =
     (let tmpRequestResult = callRequest env
            \<lparr>req_calendar = cal_id cal, timeMin = startString, timeMax = endString,
             pageToken = continuation prev\<rparr>
      in case tmpRequestResult of
           None \<Rightarrow> Some (Inl TypeError, ns @ [''Could not list Google Events''])
         | Some r \<Rightarrow>
             (let newList = filter (\<lambda>event. status event \<noteq> ''cancelled'')
                              (map (\<lambda>event. event\<lparr>parent := Some cal\<rparr>) (items r));
                  totalEventList1 = totalEventList @ newList
              in if length (items r) = resultSizes
                 then requestLoop fuel env cal startString endString (Some r) totalEventList1 ns
                 else Some (Inr totalEventList1, ns)))"

definition requestEventsFromApi ::
  "nat \<Rightarrow> Env \<Rightarrow> GoogleCalendar \<Rightarrow> instant \<Rightarrow> instant \<Rightarrow> string list
   \<Rightarrow> ((error + GoogleEvent list) \<times> string list) option" where
  "requestEventsFromApi fuel env cal startString endString ns =
     (if \<not> loggedIn env then Some (Inr [], ns)
      else requestLoop fuel env cal startString endString None [] ns)"

section \<open>checkForCachedEvents\<close>

function checkLoop ::
  "int \<Rightarrow> instant \<Rightarrow> cache \<Rightarrow> string \<Rightarrow> instant \<Rightarrow> instant \<Rightarrow> Settings \<Rightarrow> GoogleEvent list
   \<Rightarrow> GoogleEvent list option \<times> Settings" where
  "checkLoop tz now c calId rangeEnd currentDate sts cachedEventList =
     (if currentDate \<le> rangeEnd then
        (case c (localDay tz currentDate, calId) of
           None \<Rightarrow> (None, sts)
         | Some v \<Rightarrow>
             (let sts1 = (if \<not> useCustomClient sts \<and> refreshInterval sts < 60
                          then sts\<lparr>refreshInterval := 60\<rparr> else sts)
              in if updated v + refreshInterval sts1 * 1000 < now then (None, sts1)
                 else checkLoop tz now c calId rangeEnd (currentDate + DAY) sts1
                        (cachedEventList @ events v)))
      else (Some cachedEventList, sts))"
  by pat_completeness auto

termination checkLoop
proof (relation "measure (\<lambda>(tz, now, c, calId, rangeEnd, currentDate, sts, acc).
        nat (rangeEnd - currentDate + 1))", goal_cases)
  case 1
  show ?case by simp
next
  case (2 tz now c calId rangeEnd currentDate sts cachedEventList v sts1)
  then show ?case
    by (simp add: DAY_def)
qed

declare checkLoop.simps [simp del]

definition checkForCachedEvents ::
  "int \<Rightarrow> instant \<Rightarrow> cache \<Rightarrow> Settings \<Rightarrow> GoogleCalendar \<Rightarrow> instant \<Rightarrow> instant
   \<Rightarrow> GoogleEvent list option \<times> Settings" where
  "checkForCachedEvents tz now c sts cal rangeStart rangeEnd =
     checkLoop tz now c (cal_id cal) rangeEnd rangeStart sts []"

section \<open>googleListEventsByCalendar\<close>

text \<open>The colour test both return paths apply (source lines 358-364 and 392-398).\<close>

definition colorPass :: "Env \<Rightarrow> string list \<Rightarrow> string list \<Rightarrow> GoogleEvent \<Rightarrow> bool" where
  "colorPass env includeColors excludeColors indexEvent =
     (if length includeColors > 0 then getColorNameFromEvent env indexEvent \<in> set includeColors
      else if length excludeColors > 0 then getColorNameFromEvent env indexEvent \<notin> set excludeColors
      else True)"

text \<open>
  The key \<open>_.groupBy\<close> files an event under: the day of
  \<open>moment(event.start.dateTime ?? event.start.date)\<close>; and \<open>groupedEvents[day]\<close>, or the
  empty list for a day without events.
\<close>

definition groupKey :: "int \<Rightarrow> GoogleEvent \<Rightarrow> day" where
  "groupKey tz event = (case start event of DateTime t \<Rightarrow> localDay tz t | AllDay d \<Rightarrow> d)"

definition groupedEvents :: "int \<Rightarrow> GoogleEvent list \<Rightarrow> day \<Rightarrow> GoogleEvent list" where
  "groupedEvents tz totalEventList d = filter (\<lambda>event. groupKey tz event = d) totalEventList"

function populateLoop ::
  "int \<Rightarrow> instant \<Rightarrow> (day \<Rightarrow> GoogleEvent list) \<Rightarrow> string \<Rightarrow> instant \<Rightarrow> instant \<Rightarrow> cache \<Rightarrow> cache" where
  "populateLoop tz now grouped calId rangeEnd currentDate c =
     (if currentDate \<le> rangeEnd then
        populateLoop tz now grouped calId rangeEnd (currentDate + DAY)
          (c((localDay tz currentDate, calId) \<mapsto>
               \<lparr>events = grouped (localDay tz currentDate), updated = now\<rparr>))
      else c)"
  by pat_completeness auto

termination populateLoop
proof (relation "measure (\<lambda>(tz, now, grouped, calId, rangeEnd, currentDate, c).
        nat (rangeEnd - currentDate + 1))", goal_cases)
  case 1
  show ?case by simp
next
  case (2 tz now grouped calId rangeEnd currentDate c)
  then show ?case
    by (simp add: DAY_def)
qed

declare populateLoop.simps [simp del]

definition googleListEventsByCalendar ::
  "nat \<Rightarrow> Env \<Rightarrow> GoogleCalendar \<Rightarrow> instant \<Rightarrow> instant \<Rightarrow> string list \<Rightarrow> string list \<Rightarrow> State
   \<Rightarrow> ((error + GoogleEvent list) \<times> State) option" where
  "googleListEventsByCalendar fuel env cal rangeStart rangeEnd includeColors excludeColors st =
     (let tz = utcOffset env;
          now = currentTime env;
          chk = checkForCachedEvents tz now (cachedEvents st) (settings st) cal rangeStart rangeEnd;
          st1 = st\<lparr>settings := snd chk\<rparr>
      in case fst chk of
           Some alreadyCachedEvents \<Rightarrow>
             Some (Inr (filter (colorPass env includeColors excludeColors) alreadyCachedEvents), st1)
         | None \<Rightarrow>
             (case requestEventsFromApi fuel env cal rangeStart rangeEnd (notices st1) of
                None \<Rightarrow> None
              | Some (Inl err, ns) \<Rightarrow> Some (Inl err, st1\<lparr>notices := ns\<rparr>)
              | Some (Inr fetched, ns) \<Rightarrow>
                  (let totalEventList =
                         resolveMultiDayEventsHelper tz now fetched (Some rangeStart) (Some rangeEnd);
                       c1 = populateLoop tz now (groupedEvents tz totalEventList) (cal_id cal)
                              rangeEnd rangeStart (cachedEvents st1)
                   in Some (Inr (filter (\<lambda>indexEvent. eventType indexEvent \<noteq> ''delete'' \<and>
                                            colorPass env includeColors excludeColors indexEvent)
                                   totalEventList),
                            st1\<lparr>cachedEvents := c1, notices := ns\<rparr>))))"

section \<open>googleListEvents\<close>

text \<open>
  The \<open>reduce\<close> that splits the caller's include or exclude list: names of colours to
  the second list, everything else to the first.
\<close>

definition splitColors :: "string list \<Rightarrow> string list \<Rightarrow> string list \<times> string list" where
  "splitColors colorNames xs =
     foldl (\<lambda>(pass, fail) elem.
              if elem \<notin> set colorNames then (pass @ [elem], fail) else (pass, fail @ [elem]))
       ([], []) xs"

text \<open>The loop over the calendars; a rejected \<open>await\<close> ends it.\<close>

fun calendarLoop ::
  "nat \<Rightarrow> Env \<Rightarrow> instant \<Rightarrow> instant \<Rightarrow> string list \<Rightarrow> string list \<Rightarrow> GoogleCalendar list
   \<Rightarrow> GoogleEvent list \<Rightarrow> State \<Rightarrow> ((error + GoogleEvent list) \<times> State) option" where
  "calendarLoop fuel env rangeStart rangeEnd incC excC [] eventList st = Some (Inr eventList, st)"
| "calendarLoop fuel env rangeStart rangeEnd incC excC (cal # cals) eventList st =
     (case googleListEventsByCalendar fuel env cal rangeStart rangeEnd incC excC st of
        None \<Rightarrow> None
      | Some (Inl err, st1) \<Rightarrow> Some (Inl err, st1)
      | Some (Inr evs, st1) \<Rightarrow>
          calendarLoop fuel env rangeStart rangeEnd incC excC cals (eventList @ evs) st1)"

text \<open>
  The sort key \<open>new Date(event.start.date ?? event.start.dateTime)\<close>: a date-only string
  is read as midnight UTC, a date-time as the instant it names.
\<close>

definition startInstant :: "GoogleEvent \<Rightarrow> instant" where
  "startInstant event = (case start event of AllDay d \<Rightarrow> d * DAY | DateTime t \<Rightarrow> t)"

text \<open>
  The steps of \<open>googleListEvents\<close> before its loop (source lines 113-150): the range, with
  its defaults, widened to whole days; the two splits; the calendars to query.
\<close>

definition queryStart :: "Env \<Rightarrow> ListOptions \<Rightarrow> instant" where
  "queryStart env opts =
     startOfDay (utcOffset env)
       (case opt_startDate opts of None \<Rightarrow> currentTime env | Some d \<Rightarrow> d)"

definition queryEnd :: "Env \<Rightarrow> ListOptions \<Rightarrow> instant" where
  "queryEnd env opts =
     endOfDay (utcOffset env)
       (case opt_endDate opts of None \<Rightarrow> queryStart env opts | Some d \<Rightarrow> d)"

definition includeSplit :: "Env \<Rightarrow> ListOptions \<Rightarrow> string list \<times> string list" where
  "includeSplit env opts =
     splitColors (allColorNames env) (case opt_include opts of None \<Rightarrow> [] | Some xs \<Rightarrow> xs)"

definition excludeSplit :: "Env \<Rightarrow> ListOptions \<Rightarrow> string list \<times> string list" where
  "excludeSplit env opts =
     splitColors (allColorNames env) (case opt_exclude opts of None \<Rightarrow> [] | Some xs \<Rightarrow> xs)"

definition queryCalendars :: "Env \<Rightarrow> ListOptions \<Rightarrow> GoogleCalendar list" where
  "queryCalendars env opts =
     (let includeCalendars = fst (includeSplit env opts);
          excludeCalendars = fst (excludeSplit env opts)
      in if includeCalendars \<noteq> [] then
           filter (\<lambda>calendar. cal_id calendar \<in> set includeCalendars \<or>
                               cal_summary calendar \<in> set includeCalendars) (calendarList env)
         else if excludeCalendars \<noteq> [] then
           filter (\<lambda>calendar. \<not> (cal_id calendar \<in> set excludeCalendars \<or>
                                  cal_summary calendar \<in> set excludeCalendars)) (calendarList env)
         else calendarList env)"

definition googleListEvents ::
  "nat \<Rightarrow> Env \<Rightarrow> ListOptions \<Rightarrow> State \<Rightarrow> ((error + GoogleEvent list) \<times> State) option" where
  "googleListEvents fuel env opts st =
     (case calendarLoop fuel env (queryStart env opts) (queryEnd env opts)
             (snd (includeSplit env opts)) (snd (excludeSplit env opts))
             (queryCalendars env opts) [] st of
        None \<Rightarrow> None
      | Some (Inl err, st1) \<Rightarrow> Some (Inl err, st1)
      | Some (Inr eventList, st1) \<Rightarrow> Some (Inr (sort_key startInstant eventList), st1))"

section \<open>Describing a lookup\<close>

text \<open>
  The days the loops of \<open>checkForCachedEvents\<close> and of the cache population walk, from
  the day of \<open>rangeStart\<close> in steps of one day while the moving moment is not after
  \<open>rangeEnd\<close>; the interval the freshness test uses; a day that makes the lookup miss
  (no entry, or an entry older than that interval); the events filed under a day.
\<close>

definition rangeDays :: "int \<Rightarrow> instant \<Rightarrow> instant \<Rightarrow> day list" where
  "rangeDays tz rangeStart rangeEnd =
     [localDay tz rangeStart .. localDay tz rangeStart + (rangeEnd - rangeStart) div DAY]"

definition effectiveInterval :: "Settings \<Rightarrow> int" where
  "effectiveInterval sts =
     (if \<not> useCustomClient sts \<and> refreshInterval sts < 60 then 60 else refreshInterval sts)"

definition unusable :: "instant \<Rightarrow> Settings \<Rightarrow> cache \<Rightarrow> string \<Rightarrow> day \<Rightarrow> bool" where
  "unusable now sts c calId d =
     (case c (d, calId) of
        None \<Rightarrow> True
      | Some v \<Rightarrow> updated v + effectiveInterval sts * 1000 < now)"

definition bucket :: "cache \<Rightarrow> string \<Rightarrow> day \<Rightarrow> GoogleEvent list" where
  "bucket c calId d = (case c (d, calId) of None \<Rightarrow> [] | Some v \<Rightarrow> events v)"

definition floorInterval :: "Settings \<Rightarrow> Settings" where
  "floorInterval sts =
     (if \<not> useCustomClient sts \<and> refreshInterval sts < 60 then sts\<lparr>refreshInterval := 60\<rparr> else sts)"

section \<open>Describing a fresh fetch\<close>

text \<open>
  The clones of one event whose start day lies from the day of \<open>rangeStart\<close> up to, but
  not including, the day of \<open>rangeEnd\<close>; and the list a fresh fetch works on: the fetched
  events as the expander leaves them, followed by the kept clones.
\<close>

definition keptClones :: "int \<Rightarrow> instant \<Rightarrow> instant \<Rightarrow> instant \<Rightarrow> GoogleEvent \<Rightarrow> GoogleEvent list" where
  "keptClones tz now rangeStart rangeEnd e =
     filter (\<lambda>x. localDay tz rangeStart \<le> groupKey tz x \<and> groupKey tz x < localDay tz rangeEnd)
       (snd (expandEvent tz now None None e))"

definition freshList :: "int \<Rightarrow> instant \<Rightarrow> instant \<Rightarrow> instant \<Rightarrow> GoogleEvent list \<Rightarrow> GoogleEvent list" where
  "freshList tz now rangeStart rangeEnd fetched =
     map (\<lambda>e. fst (expandEvent tz now None None e)) fetched
     @ concat (map (keptClones tz now rangeStart rangeEnd) fetched)"

section \<open>States the module can be in\<close>

text \<open>
  The cache is private to the module: it is empty when the module is loaded and changes
  only in \<open>googleListEvents\<close> and \<open>googleClearCachedEvents\<close>. Settings and notices may
  be changed by the rest of the plugin between calls. \<open>cacheClean\<close>: no bucket holds a
  cancelled event.
\<close>

definition cacheClean :: "cache \<Rightarrow> bool" where
  "cacheClean c = (\<forall>k v. c k = Some v \<longrightarrow> (\<forall>e\<in>set (events v). status e \<noteq> ''cancelled''))"

inductive reachable :: "State \<Rightarrow> bool" where
  start: "cachedEvents st = Map.empty \<Longrightarrow> reachable st"
| call: "reachable st \<Longrightarrow> googleListEvents fuel env opts st = Some (r, st') \<Longrightarrow> reachable st'"
| clear: "reachable st \<Longrightarrow> reachable (googleClearCachedEvents st)"
| other: "reachable st \<Longrightarrow> reachable (st\<lparr>settings := sts, notices := ns\<rparr>)"

section \<open>A transport with short pages\<close>

text \<open>Every request is answered, with a page that is not full.\<close>

definition shortPages :: "Env \<Rightarrow> bool" where
  "shortPages env = (\<forall>r. \<exists>p. callRequest env r = Some p \<and> length (items p) \<noteq> resultSizes)"

section \<open>Reading an outcome\<close>

text \<open>
  An outcome is \<open>None\<close> (the fuel ran out), an exception with the state it left, or the
  returned list with the new state. These read one part of it.
\<close>

definition returned :: "((error + GoogleEvent list) \<times> State) option \<Rightarrow> GoogleEvent list option" where
  "returned r = (case r of Some (Inr evs, st) \<Rightarrow> Some evs | _ \<Rightarrow> None)"

definition thrown :: "((error + GoogleEvent list) \<times> State) option \<Rightarrow> error option" where
  "thrown r = (case r of Some (Inl err, st) \<Rightarrow> Some err | _ \<Rightarrow> None)"

definition stateAfter :: "State \<Rightarrow> ((error + GoogleEvent list) \<times> State) option \<Rightarrow> State" where
  "stateAfter st r = (case r of Some (x, st1) \<Rightarrow> st1 | None \<Rightarrow> st)"

section \<open>A small world for concrete runs\<close>

text \<open>
  One calendar in the zone UTC. Day 19723 is 2024-01-01, so \<open>exTrip\<close> runs from
  Jan-01 14:00 to Jan-03 10:00, \<open>exShortTrip\<close> from Jan-01 14:00 to Jan-02 10:00 and
  \<open>exMeeting\<close> from Jan-01 14:00 to 15:00. The transport of \<open>exEnv evs\<close> answers every
  request with the one short page \<open>evs\<close>; the clock stands at Jan-01 08:00. In
  \<open>exTwoCalendars\<close> a second calendar holds the trip and the first the all-day fair.
\<close>

definition exCalendar :: GoogleCalendar where
  "exCalendar = \<lparr>cal_id = ''c1'', cal_summary = ''Work'', cal_colorId = ''1''\<rparr>"

definition exEvent :: "string \<Rightarrow> instant \<Rightarrow> instant \<Rightarrow> GoogleEvent" where
  "exEvent st s f =
     \<lparr>event_id = ''e1'', parent = None, summary = ''Trip'', start = DateTime s, finish = DateTime f,
      status = st, colorId = ''1'', eventType = ''default''\<rparr>"

definition exTrip :: GoogleEvent where
  "exTrip = exEvent ''confirmed'' 1704117600000 1704276000000"

definition exShortTrip :: GoogleEvent where
  "exShortTrip = exEvent ''confirmed'' 1704117600000 1704189600000"

definition exCancelled :: GoogleEvent where
  "exCancelled = exEvent ''cancelled'' 1704117600000 1704121200000"

definition exAllDay :: GoogleEvent where
  "exAllDay = exTrip\<lparr>summary := ''Fair'', start := AllDay 19724, finish := AllDay 19725\<rparr>"

definition exMeeting :: GoogleEvent where
  "exMeeting = exEvent ''confirmed'' 1704117600000 1704121200000"

definition exEnv :: "GoogleEvent list \<Rightarrow> Env" where
  "exEnv evs =
     \<lparr>utcOffset = 0, currentTime = 1704096000000,
      callRequest = (\<lambda>r. Some \<lparr>items = evs, nextPageToken = None\<rparr>),
      loggedIn = True, calendarList = [exCalendar], allColorNames = [''red''],
      getColorNameFromEvent = colorId\<rparr>"

definition exOffline :: Env where
  "exOffline = (exEnv [])\<lparr>callRequest := (\<lambda>r. None)\<rparr>"

definition exSecondCalendar :: GoogleCalendar where
  "exSecondCalendar = \<lparr>cal_id = ''c2'', cal_summary = ''Home'', cal_colorId = ''2''\<rparr>"

definition exTwoCalendars :: Env where
  "exTwoCalendars =
     (exEnv [])\<lparr>calendarList := [exCalendar, exSecondCalendar],
                callRequest := (\<lambda>r. if req_calendar r = ''c1''
                                     then Some \<lparr>items = [exAllDay], nextPageToken = None\<rparr>
                                     else Some \<lparr>items = [exTrip], nextPageToken = None\<rparr>)\<rparr>"

definition exSettings :: Settings where
  "exSettings =
     \<lparr>useCustomClient = False, refreshInterval = 10, googleApiToken = ''k'',
      calendarBlackList = [], defaultCalendar = ''c1''\<rparr>"

definition exState :: State where
  "exState = \<lparr>cachedEvents = Map.empty, settings = exSettings, notices = []\<rparr>"

definition exCache :: cache where
  "exCache =
     [(19723, ''c1'') \<mapsto> \<lparr>events = [exTrip], updated = 1704096000000\<rparr>,
      (19724, ''c1'') \<mapsto> \<lparr>events = [exAllDay], updated = 1704096000000\<rparr>]"

definition exQuery :: "day \<Rightarrow> day \<Rightarrow> ListOptions" where
  "exQuery a b =
     \<lparr>opt_startDate = Some (dayStart 0 a), opt_endDate = Some (dayStart 0 b),
      opt_exclude = None, opt_include = None\<rparr>"

text \<open>
  The state the first call for the short trip leaves, and a transport that serves one full
  page and then fails.
\<close>

definition exAfterFirst :: State where
  "exAfterFirst =
     stateAfter exState (googleListEvents 1 (exEnv [exShortTrip]) (exQuery 19723 19725) exState)"

definition exSecondPageFails :: Env where
  "exSecondPageFails =
     (exEnv [])\<lparr>callRequest :=
        (\<lambda>r. if pageToken r = None
              then Some \<lparr>items = replicate 2500 exAllDay, nextPageToken = Some ''p2''\<rparr>
              else None)\<rparr>"

section \<open>Days and instants\<close>

lemma DAY_pos: "0 < DAY"
  by (simp add: DAY_def)

lemma localDay_add_days: "localDay tz (t + k * DAY) = localDay tz t + k"
proof -
  have "(t + k * DAY + tz) div DAY = ((t + tz) + k * DAY) div DAY"
    by (simp add: algebra_simps)
  also have "\<dots> = k + (t + tz) div DAY"
    using DAY_pos by (intro div_mult_self1) simp
  finally show ?thesis
    by (simp add: localDay_def)
qed

lemma localDay_add_DAY: "localDay tz (t + DAY) = localDay tz t + 1"
  using localDay_add_days [of tz t 1] by simp

lemma startOfDay_add_DAY: "startOfDay tz (t + DAY) = startOfDay tz t + DAY"
  unfolding startOfDay_def dayStart_def localDay_add_DAY by (simp add: algebra_simps)

lemma dayStart_le: "dayStart tz (localDay tz t) \<le> t"
proof -
  have "0 \<le> (t + tz) mod DAY" using DAY_pos by simp
  moreover have "(t + tz) div DAY * DAY + (t + tz) mod DAY = t + tz" by simp
  ultimately have "(t + tz) div DAY * DAY \<le> t + tz" by linarith
  then show ?thesis by (simp add: dayStart_def localDay_def)
qed

lemma less_dayStart_Suc: "t < dayStart tz (localDay tz t) + DAY"
proof -
  have "(t + tz) mod DAY < DAY" using DAY_pos by simp
  moreover have "(t + tz) div DAY * DAY + (t + tz) mod DAY = t + tz" by simp
  ultimately have "t + tz < (t + tz) div DAY * DAY + DAY" by linarith
  then show ?thesis by (simp add: dayStart_def localDay_def)
qed

lemma localDay_unique:
  assumes "dayStart tz d \<le> t" "t < dayStart tz d + DAY"
  shows "localDay tz t = d"
proof -
  have "t + tz = DAY * d + (t + tz - d * DAY)" by simp
  moreover have "0 \<le> t + tz - d * DAY" using assms(1) by (simp add: dayStart_def)
  moreover have "t + tz - d * DAY < DAY" using assms(2) by (simp add: dayStart_def)
  ultimately show ?thesis unfolding localDay_def
    by (metis int_div_pos_eq)
qed

lemma localDay_dayStart: "localDay tz (dayStart tz d) = d"
  using DAY_pos by (intro localDay_unique) simp_all

lemma dayStart_mono: "dayStart tz a \<le> dayStart tz b \<longleftrightarrow> a \<le> b"
  using DAY_pos by (simp add: dayStart_def)

lemma dayStart_add: "dayStart tz (d + k) = dayStart tz d + k * DAY"
  by (simp add: dayStart_def algebra_simps)

lemma localDay_mono: "a \<le> b \<Longrightarrow> localDay tz a \<le> localDay tz b"
  unfolding localDay_def using DAY_pos by (intro zdiv_mono1) simp_all

lemma dayStart_le_iff: "dayStart tz d \<le> t \<longleftrightarrow> d \<le> localDay tz t"
proof
  assume "dayStart tz d \<le> t"
  from localDay_mono [OF this, of tz] show "d \<le> localDay tz t" by (simp add: localDay_dayStart)
next
  assume "d \<le> localDay tz t"
  then have "dayStart tz d \<le> dayStart tz (localDay tz t)" by (simp add: dayStart_mono)
  with dayStart_le [of tz t] show "dayStart tz d \<le> t" by linarith
qed

lemma less_dayStart_iff: "t < dayStart tz d \<longleftrightarrow> localDay tz t < d"
  using dayStart_le_iff [of tz d t] by linarith

lemma isSame_iff: "isSame tz a b \<longleftrightarrow> localDay tz a = localDay tz b"
proof -
  have "b \<le> endOfDay tz a \<longleftrightarrow> b < dayStart tz (localDay tz a + 1)"
    unfolding endOfDay_def startOfDay_def dayStart_add by linarith
  then show ?thesis
    unfolding isSame_def by (auto simp: startOfDay_def dayStart_le_iff less_dayStart_iff)
qed

lemma isBefore_iff: "isBefore tz a b \<longleftrightarrow> localDay tz a < localDay tz b"
proof -
  have "endOfDay tz a < b \<longleftrightarrow> dayStart tz (localDay tz a + 1) \<le> b"
    unfolding endOfDay_def startOfDay_def dayStart_add by linarith
  then show ?thesis
    unfolding isBefore_def by (auto simp: dayStart_le_iff)
qed

lemma isAfter_iff: "isAfter tz a b \<longleftrightarrow> localDay tz b < localDay tz a"
  by (simp add: isAfter_def startOfDay_def less_dayStart_iff)

lemma isSameOrAfter_iff: "isSameOrAfter tz a b \<longleftrightarrow> localDay tz b \<le> localDay tz a"
  by (auto simp: isSameOrAfter_def isSame_iff isAfter_iff)

lemma localDay_startOfDay: "localDay tz (startOfDay tz t) = localDay tz t"
  by (simp add: startOfDay_def localDay_dayStart)

lemma localDay_endOfDay: "localDay tz (endOfDay tz t) = localDay tz t"
  using DAY_pos by (intro localDay_unique) (simp_all add: endOfDay_def startOfDay_def)

lemma MINUTE_DAY: "DAY = 1440 * MINUTE"
  by (simp add: DAY_def MINUTE_def)

lemma formatMinute_dayStart: "formatMinute tz (dayStart tz d) = dayStart tz d"
  by (simp add: formatMinute_def dayStart_def MINUTE_DAY MINUTE_def)

lemma diffDays_span:
  assumes "a \<le> b"
  shows "diffDays (dayStart tz b + DAY - 1) (dayStart tz a) = b - a"
proof -
  have e: "dayStart tz b + DAY - 1 - dayStart tz a = (DAY - 1) + (b - a) * DAY"
    by (simp add: dayStart_def algebra_simps)
  have "((DAY - 1) + (b - a) * DAY) div DAY = (b - a) + (DAY - 1) div DAY"
    using DAY_pos by (intro div_mult_self1) simp
  moreover have "(DAY - 1) div DAY = 0"
    by (simp add: DAY_def)
  ultimately have d: "((DAY - 1) + (b - a) * DAY) div DAY = b - a"
    by simp
  have "0 \<le> (b - a) * DAY"
    using assms DAY_pos by simp
  then have "\<not> (DAY - 1) + (b - a) * DAY < 0"
    using DAY_pos by linarith
  then show ?thesis
    unfolding diffDays_def e d by simp
qed

section \<open>The expander, loop by loop\<close>

lemma upt_Suc_shift: "map f [0..<Suc n] = f 0 # map (\<lambda>j. f (Suc j)) [0..<n]"
  by (simp only: upt_conv_Cons [of 0 "Suc n"] list.map map_Suc_upt [symmetric] map_map comp_def)

lemma multiDayLoop_closed:
  "k = nat (E - d) \<Longrightarrow>
   multiDayLoop tz title N (dayStart tz E + DAY - 1) tmp (dayStart tz d) c extra =
     (tmp\<lparr>summary := dayLabel title (c + int k) N, eventType := ''multiDay'',
          start := DateTime (dayStart tz (d + int k + 1))\<rparr>,
      extra @ map (\<lambda>j. (if j = 0 then tmp else tmp\<lparr>start := DateTime (dayStart tz (d + int j))\<rparr>)
                          \<lparr>summary := dayLabel title (c + int j) N, eventType := ''multiDay''\<rparr>)
                [0..<Suc k])"
proof (induction k arbitrary: d c tmp extra)
  case 0
  then have "E < d + 1" by simp
  then have "isAfter tz (dayStart tz d + DAY) (dayStart tz E + DAY - 1)"
    using localDay_endOfDay [of tz "dayStart tz E"] localDay_dayStart [of tz "d + 1"]
    by (simp add: isAfter_iff endOfDay_def startOfDay_def localDay_dayStart dayStart_add)
  then show ?case
    using formatMinute_dayStart [of tz "d + 1"]
    by (subst multiDayLoop.simps) (simp add: Let_def dayStart_add)
next
  case (Suc k)
  then have le: "d + 1 \<le> E" and k: "k = nat (E - (d + 1))" by simp_all
  from le have "\<not> isAfter tz (dayStart tz d + DAY) (dayStart tz E + DAY - 1)"
    using localDay_endOfDay [of tz "dayStart tz E"] localDay_dayStart [of tz "d + 1"]
    by (simp add: isAfter_iff endOfDay_def startOfDay_def localDay_dayStart dayStart_add)
  then show ?case
    using formatMinute_dayStart [of tz "d + 1"] Suc.IH [OF k]
    apply (subst multiDayLoop.simps)
    apply (subst upt_Suc_shift)
    apply (simp add: Let_def dayStart_add add.assoc)
    done
qed


lemma upto_as_upt: "map f [1..int n] = map (\<lambda>j. f (int j + 1)) [0..<n]"
proof (induction n)
  case 0
  show ?case by simp
next
  case (Suc n)
  have "[1..int (Suc n)] = [1..int n] @ [int n + 1]"
    using upto_rec2 [of 1 "int (Suc n)"] by (simp add: add.commute)
  with Suc show ?case by simp
qed

lemma inRange_unbounded: "filter (inRange tz now None None) xs = xs"
  by (simp add: inRange_def)

lemma expandEvent_other_day:
  assumes "start e = DateTime s" and "finish e = DateTime f" and "localDay tz s < localDay tz f"
  shows "expandEvent tz now rangeStart rangeEnd e =
    (e\<lparr>summary := dayLabel (summary e) (localDay tz f - localDay tz s + 1) (localDay tz f - localDay tz s + 1),
       eventType := ''delete'',
       start := DateTime (dayStart tz (localDay tz f + 1))\<rparr>,
     filter (inRange tz now rangeStart rangeEnd)
       (map (\<lambda>i. e\<lparr>summary := dayLabel (summary e) i (localDay tz f - localDay tz s + 1),
                    eventType := ''multiDay'',
                    start := (if i = 1 then DateTime s else DateTime (dayStart tz (localDay tz s + i - 1)))\<rparr>)
            [1..localDay tz f - localDay tz s + 1]))"
proof -
  define S where "S = localDay tz s"
  define E where "E = localDay tz f"
  define k where "k = nat (E - S)"
  have SE: "S < E" using assms(3) by (simp add: S_def E_def)
  then have kE: "int k = E - S" by (simp add: k_def)
  have n: "E - S + 1 = int (Suc k)" using kE by simp
  have total: "diffDays (endOfDay tz f) (startOfDay tz s) + 1 = E - S + 1"
    using diffDays_span [of S E tz] SE by (simp add: endOfDay_def startOfDay_def S_def E_def)
  have loop: "multiDayLoop tz (summary e) (E - S + 1) (endOfDay tz f) e (startOfDay tz s) 1 [] =
     (e\<lparr>summary := dayLabel (summary e) (1 + int k) (E - S + 1), eventType := ''multiDay'',
          start := DateTime (dayStart tz (S + int k + 1))\<rparr>,
      [] @ map (\<lambda>j. (if j = 0 then e else e\<lparr>start := DateTime (dayStart tz (S + int j))\<rparr>)
                          \<lparr>summary := dayLabel (summary e) (1 + int j) (E - S + 1), eventType := ''multiDay''\<rparr>)
                [0..<Suc k])"
    using multiDayLoop_closed [of k E S tz "summary e" "E - S + 1" e 1 "[]"] k_def
    by (simp add: endOfDay_def startOfDay_def S_def E_def)
  have clones: "map (\<lambda>j. (if j = 0 then e else e\<lparr>start := DateTime (dayStart tz (S + int j))\<rparr>)
                          \<lparr>summary := dayLabel (summary e) (1 + int j) (E - S + 1), eventType := ''multiDay''\<rparr>)
                [0..<Suc k]
      = map (\<lambda>i. e\<lparr>summary := dayLabel (summary e) i (E - S + 1),
                    eventType := ''multiDay'',
                    start := (if i = 1 then DateTime s else DateTime (dayStart tz (S + i - 1)))\<rparr>)
            [1..E - S + 1]"
    unfolding n upto_as_upt using assms(1)
    by (intro map_cong refl) (auto simp: add.commute)
  have ns: "\<not> isSame tz s f" using assms(3) by (simp add: isSame_iff)
  have idx: "1 + int k = E - S + 1" "S + int k + 1 = E + 1"
    using kE by simp_all
  have "expandEvent tz now rangeStart rangeEnd e =
     ((fst (multiDayLoop tz (summary e) (diffDays (endOfDay tz f) (startOfDay tz s) + 1)
              (endOfDay tz f) e (startOfDay tz s) 1 []))\<lparr>eventType := ''delete''\<rparr>,
      filter (inRange tz now rangeStart rangeEnd)
        (snd (multiDayLoop tz (summary e) (diffDays (endOfDay tz f) (startOfDay tz s) + 1)
              (endOfDay tz f) e (startOfDay tz s) 1 [])))"
    unfolding expandEvent_def Let_def
    by (simp only: assms(1,2) dateTime.simps option.case ns if_False)
  then show ?thesis
    unfolding total loop fst_conv snd_conv append_Nil clones idx S_def [symmetric] E_def [symmetric]
    by simp
qed

lemma expandEvent_same_day:
  assumes "start e = DateTime s" and "finish e = DateTime f" and "localDay tz s = localDay tz f"
  shows "expandEvent tz now rangeStart rangeEnd e = (e, [])"
  using assms by (simp add: expandEvent_def isSame_iff)

lemma expandEvent_all_day:
  assumes "dateTime (start e) = None \<or> dateTime (finish e) = None"
  shows "expandEvent tz now rangeStart rangeEnd e = (e, [])"
  using assms by (auto simp: expandEvent_def split: option.splits)

lemma returned_SomeD: "returned r = Some evs \<Longrightarrow> \<exists>st'. r = Some (Inr evs, st')"
  by (auto simp: returned_def split: option.splits sum.splits prod.splits)

section \<open>Claims about the expander\<close>

text \<open>
  C6, as amended. An event whose start and end are date-times on different calendar days,
  the end day after the start day, \<open>N\<close> days inclusive: without a range, the expander makes
  exactly \<open>N\<close> clones, the \<open>i\<close>-th titled with the original title and \<open>(Day i/N)\<close> and
  tagged \<open>multiDay\<close>, each with the end of the original. The first clone keeps the start
  of the original; the \<open>i\<close>-th clone for \<open>i > 1\<close> starts at local midnight of the day
  \<open>i - 1\<close> days after the start day: the time of day of the original start is not carried
  over. An event whose start and end fall on the same day is left untouched and adds no
  clone.
\<close>

theorem expandEvent_occurrences:
  assumes "start e = DateTime s" and "finish e = DateTime f"
  shows "(localDay tz s < localDay tz f \<longrightarrow>
            snd (expandEvent tz now None None e) =
              map (\<lambda>i. e\<lparr>summary := dayLabel (summary e) i (localDay tz f - localDay tz s + 1),
                           eventType := ''multiDay'',
                           start := (if i = 1 then DateTime s
                                     else DateTime (dayStart tz (localDay tz s + i - 1)))\<rparr>)
                  [1..localDay tz f - localDay tz s + 1]
            \<and> int (length (snd (expandEvent tz now None None e))) = localDay tz f - localDay tz s + 1
            \<and> (\<forall>x\<in>set (snd (expandEvent tz now None None e)).
                  finish x = finish e \<and> eventType x = ''multiDay''))
       \<and> (localDay tz s = localDay tz f \<longrightarrow>
            expandEvent tz now rangeStart rangeEnd e = (e, []))"
proof (intro conjI impI)
  assume lt: "localDay tz s < localDay tz f"
  from expandEvent_other_day [OF assms lt, of now None None]
  show clones: "snd (expandEvent tz now None None e) =
              map (\<lambda>i. e\<lparr>summary := dayLabel (summary e) i (localDay tz f - localDay tz s + 1),
                           eventType := ''multiDay'',
                           start := (if i = 1 then DateTime s
                                     else DateTime (dayStart tz (localDay tz s + i - 1)))\<rparr>)
                  [1..localDay tz f - localDay tz s + 1]"
    by (simp add: inRange_unbounded)
  show "int (length (snd (expandEvent tz now None None e))) = localDay tz f - localDay tz s + 1"
    unfolding clones using lt by simp
  show "\<forall>x\<in>set (snd (expandEvent tz now None None e)). finish x = finish e \<and> eventType x = ''multiDay''"
    unfolding clones by auto
next
  assume "localDay tz s = localDay tz f"
  then show "expandEvent tz now rangeStart rangeEnd e = (e, [])"
    by (rule expandEvent_same_day [OF assms])
qed

theorem expandEvent_occurrences_witness:
  "snd (expandEvent 0 0 None None exTrip) =
     [exTrip\<lparr>summary := ''Trip (Day 1/3)'', eventType := ''multiDay''\<rparr>,
      exTrip\<lparr>summary := ''Trip (Day 2/3)'', eventType := ''multiDay'', start := DateTime 1704153600000\<rparr>,
      exTrip\<lparr>summary := ''Trip (Day 3/3)'', eventType := ''multiDay'', start := DateTime 1704240000000\<rparr>]
   \<and> expandEvent 0 0 None None exMeeting = (exMeeting, [])"
proof -
  have d: "localDay 0 1704117600000 = 19723" "localDay 0 1704276000000 = 19725"
          "localDay 0 1704121200000 = 19723"
    by (simp_all add: localDay_def DAY_def)
  have u: "[1..3::int] = [1, 2, 3]"
    by (simp add: upto.simps)
  have l: "dayLabel ''Trip'' 1 3 = ''Trip (Day 1/3)''" "dayLabel ''Trip'' 2 3 = ''Trip (Day 2/3)''"
          "dayLabel ''Trip'' 3 3 = ''Trip (Day 3/3)''"
    by (simp_all add: dayLabel_def show_int_def show_nat.simps)
  have a: "start exTrip = DateTime 1704117600000" "finish exTrip = DateTime 1704276000000"
          "summary exTrip = ''Trip''"
    by (simp_all add: exTrip_def exEvent_def)
  have b: "start exMeeting = DateTime 1704117600000" "finish exMeeting = DateTime 1704121200000"
    by (simp_all add: exMeeting_def exEvent_def)
  from expandEvent_occurrences [OF a(1,2), of 0 0 None None]
  have 1: "snd (expandEvent 0 0 None None exTrip) =
     [exTrip\<lparr>summary := ''Trip (Day 1/3)'', eventType := ''multiDay''\<rparr>,
      exTrip\<lparr>summary := ''Trip (Day 2/3)'', eventType := ''multiDay'', start := DateTime 1704153600000\<rparr>,
      exTrip\<lparr>summary := ''Trip (Day 3/3)'', eventType := ''multiDay'', start := DateTime 1704240000000\<rparr>]"
    by (simp add: d u l a dayStart_def DAY_def exTrip_def exEvent_def)
  from expandEvent_occurrences [OF b, of 0 0 None None]
  have 2: "expandEvent 0 0 None None exMeeting = (exMeeting, [])"
    by (simp add: d)
  from 1 2 show ?thesis
    by simp
qed

text \<open>
  C6 as stated fails: the clones of the trip from Jan-01 14:00 to Jan-03 10:00 start at
  Jan-01 14:00, Jan-02 00:00 and Jan-03 00:00, not at the original start advanced by zero,
  one and two days.
\<close>

theorem expandEvent_start_counterexample:
  "map start (snd (expandEvent 0 0 None None exTrip)) =
     [DateTime 1704117600000, DateTime 1704153600000, DateTime 1704240000000]
   \<and> map start (snd (expandEvent 0 0 None None exTrip)) \<noteq>
     map (\<lambda>i. DateTime (1704117600000 + (i - 1) * DAY)) [1, 2, 3]"
  by code_simp

section \<open>Claims about the aggregator\<close>

lemma googleListEvents_Inr:
  assumes "googleListEvents fuel env opts st = Some (Inr evs, st')"
  shows "\<exists>l. calendarLoop fuel env (queryStart env opts) (queryEnd env opts)
             (snd (includeSplit env opts)) (snd (excludeSplit env opts))
             (queryCalendars env opts) [] st = Some (Inr l, st') \<and> evs = sort_key startInstant l"
  using assms unfolding googleListEvents_def
  by (auto split: option.splits sum.splits prod.splits)

text \<open>
  C9. Whatever list \<open>googleListEvents\<close> returns is sorted ascending by the start instant
  of each event (the date-time of a timed event, midnight of the date of an all-day event),
  across all calendars that contributed.
\<close>

theorem googleListEvents_sorted:
  "googleListEvents fuel env opts st = Some (Inr evs, st') \<Longrightarrow> sorted (map startInstant evs)"
  by (auto dest!: googleListEvents_Inr)

theorem googleListEvents_sorted_witness:
  "map_option (map summary)
     (returned (googleListEvents 1 exTwoCalendars (exQuery 19723 19725) exState))
     = Some [''Trip (Day 1/3)'', ''Fair'', ''Trip (Day 2/3)'']
   \<and> (case returned (googleListEvents 1 exTwoCalendars (exQuery 19723 19725) exState) of
        Some evs \<Rightarrow> sorted (map startInstant evs)
      | None \<Rightarrow> False)"
proof -
  have run: "map_option (map summary)
     (returned (googleListEvents 1 exTwoCalendars (exQuery 19723 19725) exState))
     = Some [''Trip (Day 1/3)'', ''Fair'', ''Trip (Day 2/3)'']"
    by code_simp
  then obtain evs where
    evs: "returned (googleListEvents 1 exTwoCalendars (exQuery 19723 19725) exState) = Some evs"
    by auto
  then obtain st' where
    "googleListEvents 1 exTwoCalendars (exQuery 19723 19725) exState = Some (Inr evs, st')"
    using returned_SomeD by blast
  from googleListEvents_sorted [OF this] run evs show ?thesis
    by simp
qed

section \<open>Claims about the cache lookup\<close>

lemma rangeDays_step:
  assumes "cur \<le> e"
  shows "rangeDays tz cur e = localDay tz cur # rangeDays tz (cur + DAY) e"
proof -
  have n: "0 \<le> (e - cur) div DAY"
    using assms DAY_pos by (simp add: pos_imp_zdiv_nonneg_iff)
  have "(e - (cur + DAY)) div DAY = ((e - cur) + (- 1) * DAY) div DAY"
    by (simp add: algebra_simps)
  also have "\<dots> = - 1 + (e - cur) div DAY"
    using DAY_pos by (intro div_mult_self1) simp
  finally have m: "(e - (cur + DAY)) div DAY = (e - cur) div DAY - 1"
    by simp
  have "[localDay tz cur .. localDay tz cur + (e - cur) div DAY] =
        localDay tz cur # [localDay tz cur + 1 .. localDay tz cur + (e - cur) div DAY]"
    using n by (intro upto_rec1) simp
  then show ?thesis
    unfolding rangeDays_def localDay_add_DAY m by simp
qed

lemma rangeDays_empty:
  assumes "\<not> cur \<le> e"
  shows "rangeDays tz cur e = []"
proof -
  have "(e - cur) div DAY < 0"
    using assms DAY_pos by (simp add: pos_imp_zdiv_neg_iff)
  then show ?thesis
    by (simp add: rangeDays_def)
qed

lemma rangeDays_query: "rangeDays tz (startOfDay tz a) (endOfDay tz b) = [localDay tz a .. localDay tz b]"
proof -
  have "endOfDay tz b - startOfDay tz a = (DAY - 1) + (localDay tz b - localDay tz a) * DAY"
    by (simp add: endOfDay_def startOfDay_def dayStart_def algebra_simps)
  moreover have "((DAY - 1) + (localDay tz b - localDay tz a) * DAY) div DAY
      = (localDay tz b - localDay tz a) + (DAY - 1) div DAY"
    using DAY_pos by (intro div_mult_self1) simp
  moreover have "(DAY - 1) div DAY = 0"
    by (simp add: DAY_def)
  ultimately have "(endOfDay tz b - startOfDay tz a) div DAY = localDay tz b - localDay tz a"
    by simp
  then show ?thesis
    by (simp add: rangeDays_def localDay_startOfDay)
qed

lemma effectiveInterval_floor:
  "effectiveInterval (if \<not> useCustomClient sts \<and> refreshInterval sts < 60 then sts\<lparr>refreshInterval := 60\<rparr> else sts)
     = effectiveInterval sts"
  "refreshInterval (if \<not> useCustomClient sts \<and> refreshInterval sts < 60 then sts\<lparr>refreshInterval := 60\<rparr> else sts)
     = effectiveInterval sts"
  by (simp_all add: effectiveInterval_def)

lemma unusable_floor:
  "unusable now (if \<not> useCustomClient sts \<and> refreshInterval sts < 60 then sts\<lparr>refreshInterval := 60\<rparr> else sts) c cid d
     = unusable now sts c cid d"
  unfolding unusable_def effectiveInterval_floor by simp

lemma checkLoop_fst:
  "fst (checkLoop tz now c cid e cur sts acc) =
     (if \<exists>d\<in>set (rangeDays tz cur e). unusable now sts c cid d then None
      else Some (acc @ concat (map (bucket c cid) (rangeDays tz cur e))))"
proof (induction tz now c cid e cur sts acc rule: checkLoop.induct)
  case (1 tz now c cid e cur sts acc)
  show ?case
  proof (cases "cur \<le> e")
    case False
    then show ?thesis
      by (subst checkLoop.simps) (simp add: rangeDays_empty)
  next
    case le: True
    show ?thesis
    proof (cases "c (localDay tz cur, cid)")
      case None
      then show ?thesis
        using le by (subst checkLoop.simps) (simp add: rangeDays_step unusable_def)
    next
      case (Some v)
      define sts1 where "sts1 = (if \<not> useCustomClient sts \<and> refreshInterval sts < 60
                          then sts\<lparr>refreshInterval := 60\<rparr> else sts)"
      show ?thesis
      proof (cases "updated v + refreshInterval sts1 * 1000 < now")
        case True
        then show ?thesis
          using le Some
          by (subst checkLoop.simps)
             (simp add: rangeDays_step unusable_def sts1_def Let_def effectiveInterval_floor)
      next
        case False
        from "1.IH" [OF le Some sts1_def False]
        show ?thesis
          using le Some False
          by (subst checkLoop.simps)
             (simp add: rangeDays_step [OF le] unusable_def [of now sts c cid "localDay tz cur"]
                bucket_def [of c cid "localDay tz cur"] sts1_def Let_def
                effectiveInterval_floor unusable_floor)
      qed
    qed
  qed
qed

lemma floorInterval_idem: "floorInterval (floorInterval sts) = floorInterval sts"
  by (simp add: floorInterval_def)

lemma checkLoop_snd:
  "snd (checkLoop tz now c cid e cur sts acc) =
     (if cur \<le> e \<and> c (localDay tz cur, cid) \<noteq> None then floorInterval sts else sts)"
proof (induction tz now c cid e cur sts acc rule: checkLoop.induct)
  case (1 tz now c cid e cur sts acc)
  show ?case
  proof (cases "cur \<le> e")
    case False
    then show ?thesis
      by (subst checkLoop.simps) simp
  next
    case le: True
    show ?thesis
    proof (cases "c (localDay tz cur, cid)")
      case None
      then show ?thesis
        using le by (subst checkLoop.simps) simp
    next
      case (Some v)
      define sts1 where "sts1 = (if \<not> useCustomClient sts \<and> refreshInterval sts < 60
                          then sts\<lparr>refreshInterval := 60\<rparr> else sts)"
      have f: "sts1 = floorInterval sts" "floorInterval sts1 = floorInterval sts"
        by (simp_all add: sts1_def floorInterval_def)
      show ?thesis
      proof (cases "updated v + refreshInterval sts1 * 1000 < now")
        case True
        then show ?thesis
          using le Some f(1)
          by (subst checkLoop.simps) (simp add: sts1_def Let_def)
      next
        case False
        from "1.IH" [OF le Some sts1_def False]
        show ?thesis
          using le Some False f
          by (subst checkLoop.simps) (auto simp: sts1_def Let_def)
      qed
    qed
  qed
qed

text \<open>
  C7. For every calendar and range, the lookup walks the days of \<open>rangeDays\<close> (for a
  range from the start of day \<open>a\<close> to the end of day \<open>b\<close>: the days from \<open>a\<close> to \<open>b\<close>
  in ascending order). It returns \<open>None\<close> exactly when some day of the range has no entry
  for the calendar, or has one older than the effective freshness window; otherwise it
  returns the events of the entries, concatenated in that order.
\<close>

theorem checkForCachedEvents_lookup:
  "fst (checkForCachedEvents tz now c sts cal rangeStart rangeEnd) =
     (if \<exists>d\<in>set (rangeDays tz rangeStart rangeEnd). unusable now sts c (cal_id cal) d then None
      else Some (concat (map (bucket c (cal_id cal)) (rangeDays tz rangeStart rangeEnd))))
   \<and> rangeDays tz (startOfDay tz a) (endOfDay tz b) = [localDay tz a .. localDay tz b]"
  by (simp add: checkForCachedEvents_def checkLoop_fst rangeDays_query)

lemma exRange: "rangeDays 0 (dayStart 0 19723) (dayStart 0 19724 + DAY - 1) = [19723, 19724]"
   "rangeDays 0 (dayStart 0 19723) (dayStart 0 19725 + DAY - 1) = [19723, 19724, 19725]"
   "rangeDays 0 (dayStart 0 19722) (dayStart 0 19724 + DAY - 1) = [19722, 19723, 19724]"
  by (simp_all add: rangeDays_def localDay_def dayStart_def DAY_def upto.simps)

theorem checkForCachedEvents_lookup_witness:
  "fst (checkForCachedEvents 0 1704096010000 exCache exSettings exCalendar
          (dayStart 0 19723) (dayStart 0 19724 + DAY - 1)) = Some [exTrip, exAllDay]
   \<and> fst (checkForCachedEvents 0 1704096061000 exCache exSettings exCalendar
          (dayStart 0 19723) (dayStart 0 19724 + DAY - 1)) = None
   \<and> fst (checkForCachedEvents 0 1704096010000 exCache exSettings exCalendar
          (dayStart 0 19723) (dayStart 0 19725 + DAY - 1)) = None"
  using checkForCachedEvents_lookup [of 0 1704096010000 exCache exSettings exCalendar
          "dayStart 0 19723" "dayStart 0 19724 + DAY - 1" 0 0]
        checkForCachedEvents_lookup [of 0 1704096061000 exCache exSettings exCalendar
          "dayStart 0 19723" "dayStart 0 19724 + DAY - 1" 0 0]
        checkForCachedEvents_lookup [of 0 1704096010000 exCache exSettings exCalendar
          "dayStart 0 19723" "dayStart 0 19725 + DAY - 1" 0 0]
  by (simp add: exRange unusable_def bucket_def effectiveInterval_def exCache_def exSettings_def
        exCalendar_def)

lemma byCalendar_settings:
  assumes "googleListEventsByCalendar fuel env cal rangeStart rangeEnd incC excC st = Some (r, st')"
  shows "settings st' = snd (checkForCachedEvents (utcOffset env) (currentTime env)
                               (cachedEvents st) (settings st) cal rangeStart rangeEnd)"
  using assms unfolding googleListEventsByCalendar_def Let_def
  by (auto split: option.splits sum.splits prod.splits)

text \<open>
  C10. A lookup made while \<open>useCustomClient\<close> is false and the refresh interval is below
  60 overwrites the stored interval with 60 and leaves every other field as it was. It does
  so exactly when the range is not empty and its first day has an entry for the calendar;
  hence only when at least one day of the range is in the cache. The changed settings are
  the ones \<open>googleListEventsByCalendar\<close> leaves in the state.
\<close>

theorem checkForCachedEvents_floor:
  assumes "\<not> useCustomClient sts" and "refreshInterval sts < 60"
  shows "snd (checkForCachedEvents tz now c sts cal rangeStart rangeEnd) =
           (if rangeStart \<le> rangeEnd \<and> c (localDay tz rangeStart, cal_id cal) \<noteq> None
            then sts\<lparr>refreshInterval := 60\<rparr> else sts)
       \<and> (snd (checkForCachedEvents tz now c sts cal rangeStart rangeEnd) \<noteq> sts \<longrightarrow>
            (\<exists>d\<in>set (rangeDays tz rangeStart rangeEnd). c (d, cal_id cal) \<noteq> None))
       \<and> (googleListEventsByCalendar fuel env cal rangeStart rangeEnd incC excC st = Some (r, st') \<longrightarrow>
            settings st' = snd (checkForCachedEvents (utcOffset env) (currentTime env)
                                  (cachedEvents st) (settings st) cal rangeStart rangeEnd))"
proof (intro conjI impI)
  show first: "snd (checkForCachedEvents tz now c sts cal rangeStart rangeEnd) =
           (if rangeStart \<le> rangeEnd \<and> c (localDay tz rangeStart, cal_id cal) \<noteq> None
            then sts\<lparr>refreshInterval := 60\<rparr> else sts)"
    using assms by (simp add: checkForCachedEvents_def checkLoop_snd floorInterval_def)
  assume "snd (checkForCachedEvents tz now c sts cal rangeStart rangeEnd) \<noteq> sts"
  with first have "rangeStart \<le> rangeEnd" and "c (localDay tz rangeStart, cal_id cal) \<noteq> None"
    by (auto split: if_splits)
  then show "\<exists>d\<in>set (rangeDays tz rangeStart rangeEnd). c (d, cal_id cal) \<noteq> None"
    by (auto simp: rangeDays_step)
next
  assume "googleListEventsByCalendar fuel env cal rangeStart rangeEnd incC excC st = Some (r, st')"
  then show "settings st' = snd (checkForCachedEvents (utcOffset env) (currentTime env)
                                  (cachedEvents st) (settings st) cal rangeStart rangeEnd)"
    by (rule byCalendar_settings)
qed

theorem checkForCachedEvents_floor_witness:
  "snd (checkForCachedEvents 0 1704096010000 exCache exSettings exCalendar
          (dayStart 0 19723) (dayStart 0 19724 + DAY - 1)) = exSettings\<lparr>refreshInterval := 60\<rparr>
   \<and> snd (checkForCachedEvents 0 1704096010000 exCache exSettings exCalendar
          (dayStart 0 19722) (dayStart 0 19724 + DAY - 1)) = exSettings
   \<and> refreshInterval exSettings = 10"
proof -
  have a: "\<not> useCustomClient exSettings" "refreshInterval exSettings < 60"
    by (simp_all add: exSettings_def)
  have k: "exCache (19723, cal_id exCalendar) \<noteq> None" "exCache (19722, cal_id exCalendar) = None"
    by (simp_all add: exCache_def exCalendar_def)
  have r: "refreshInterval exSettings = 10"
    by (simp add: exSettings_def)
  show ?thesis
    using checkForCachedEvents_floor [OF a, of 0 1704096010000 exCache exCalendar
            "dayStart 0 19723" "dayStart 0 19724 + DAY - 1"]
          checkForCachedEvents_floor [OF a, of 0 1704096010000 exCache exCalendar
            "dayStart 0 19722" "dayStart 0 19724 + DAY - 1"]
    by (simp add: k r localDay_def dayStart_def DAY_def)
qed

section \<open>Claims about a fresh fetch\<close>

lemma populateLoop_closed:
  "populateLoop tz now g cid e cur c (d, k) =
     (if k = cid \<and> d \<in> set (rangeDays tz cur e)
      then Some \<lparr>events = g d, updated = now\<rparr> else c (d, k))"
proof (induction tz now g cid e cur c rule: populateLoop.induct)
  case (1 tz now g cid e cur c)
  show ?case
  proof (cases "cur \<le> e")
    case False
    then show ?thesis
      by (subst populateLoop.simps) (simp add: rangeDays_empty)
  next
    case True
    have step: "populateLoop tz now g cid e cur c (d, k) =
        populateLoop tz now g cid e (cur + DAY)
          (c((localDay tz cur, cid) \<mapsto> \<lparr>events = g (localDay tz cur), updated = now\<rparr>)) (d, k)"
      using True by (subst populateLoop.simps) simp
    show ?thesis
      unfolding step "1.IH" [OF True] rangeDays_step [OF True]
      by auto
  qed
qed

lemma multiDayLoop_dateTime:
  assumes "\<forall>x\<in>set extra. dateTime (start x) \<noteq> None" and "dateTime (start tmp) \<noteq> None"
  shows "\<forall>x\<in>set (snd (multiDayLoop tz title n endMoment tmp startMoment c extra)).
           dateTime (start x) \<noteq> None"
  using assms
proof (induction tz title n endMoment tmp startMoment c extra rule: multiDayLoop.induct)
  case (1 tz title n endMoment tmp startMoment c extra)
  show ?case
  proof (cases "isAfter tz (startMoment + DAY) endMoment")
    case True
    then show ?thesis
      using "1.prems" by (subst multiDayLoop.simps) (simp add: Let_def)
  next
    case False
    have "\<forall>x\<in>set (snd (multiDayLoop tz title n endMoment
              (tmp\<lparr>summary := dayLabel title c n, eventType := ''multiDay'',
                   start := DateTime (formatMinute tz (startMoment + DAY))\<rparr>)
              (startMoment + DAY) (c + 1)
              (extra @ [tmp\<lparr>summary := dayLabel title c n, eventType := ''multiDay''\<rparr>]))).
            dateTime (start x) \<noteq> None"
      using "1.prems" False by (intro "1.IH" [OF refl refl refl refl refl]) auto
    then show ?thesis
      using False by (subst multiDayLoop.simps) (simp add: Let_def)
  qed
qed

lemma inRange_iff:
  assumes "start x = DateTime t"
  shows "inRange tz now (Some rs) (Some re) x \<longleftrightarrow>
           localDay tz rs \<le> groupKey tz x \<and> groupKey tz x < localDay tz re"
  using assms by (auto simp: inRange_def groupKey_def isBefore_iff isSameOrAfter_iff)

lemma filter_inRange:
  assumes "\<forall>x\<in>set xs. dateTime (start x) \<noteq> None"
  shows "filter (inRange tz now (Some rs) (Some re)) xs =
         filter (\<lambda>x. localDay tz rs \<le> groupKey tz x \<and> groupKey tz x < localDay tz re) xs"
proof (rule filter_cong [OF refl])
  fix x assume "x \<in> set xs"
  with assms obtain t where "start x = DateTime t"
    by (cases "start x") auto
  then show "inRange tz now (Some rs) (Some re) x =
      (localDay tz rs \<le> groupKey tz x \<and> groupKey tz x < localDay tz re)"
    by (rule inRange_iff)
qed

lemma expandEvent_fst: "fst (expandEvent tz now rs re e) = fst (expandEvent tz now None None e)"
  by (simp add: expandEvent_def Let_def split: option.splits)

lemma expandEvent_ranged:
  "snd (expandEvent tz now (Some rs) (Some re) e) = keptClones tz now rs re e"
proof (cases "dateTime (start e)")
  case None
  then show ?thesis by (simp add: expandEvent_def keptClones_def)
next
  case s: (Some s)
  show ?thesis
  proof (cases "dateTime (finish e)")
    case None
    then show ?thesis using s by (simp add: expandEvent_def keptClones_def)
  next
    case f: (Some f)
    show ?thesis
    proof (cases "isSame tz s f")
      case True
      then show ?thesis using s f by (simp add: expandEvent_def keptClones_def)
    next
      case False
      have "\<forall>x\<in>set (snd (multiDayLoop tz (summary e) (diffDays (endOfDay tz f) (startOfDay tz s) + 1)
                (endOfDay tz f) e (startOfDay tz s) 1 [])). dateTime (start x) \<noteq> None"
        using s by (intro multiDayLoop_dateTime) simp_all
      from filter_inRange [OF this] show ?thesis
        using s f False
        by (simp add: expandEvent_def keptClones_def Let_def inRange_unbounded)
    qed
  qed
qed

lemma resolve_freshList:
  "resolveMultiDayEventsHelper tz now fetched (Some rs) (Some re) = freshList tz now rs re fetched"
  unfolding resolveMultiDayEventsHelper_def freshList_def Let_def
  by (simp add: comp_def expandEvent_ranged expandEvent_fst [of tz now "Some rs" "Some re"])

text \<open>
  C4, as amended. On a fresh fetch of a calendar (the lookup missed, the transport
  answered), the returned list holds, besides the fetched events, only those expanded
  occurrences whose start day is on or after the day of the range start and before the day
  of the range end; it is that list without the \<open>delete\<close>-tagged and colour-filtered
  events. The cache is written for the days of the requested range only: the bucket of such
  a day holds the events of the same range-filtered list that start on that day, and every
  bucket of a day outside the range, or of another calendar, is left as it was.
\<close>

theorem freshFetch_range_and_cache:
  assumes "fst (checkForCachedEvents (utcOffset env) (currentTime env) (cachedEvents st)
                  (settings st) cal rangeStart rangeEnd) = None"
      and "requestEventsFromApi fuel env cal rangeStart rangeEnd (notices st) = Some (Inr fetched, ns)"
  shows "returned (googleListEventsByCalendar fuel env cal rangeStart rangeEnd incC excC st) =
           Some (filter (\<lambda>x. eventType x \<noteq> ''delete'' \<and> colorPass env incC excC x)
                   (freshList (utcOffset env) (currentTime env) rangeStart rangeEnd fetched))
       \<and> cachedEvents (stateAfter st
            (googleListEventsByCalendar fuel env cal rangeStart rangeEnd incC excC st)) (d, calId) =
           (if calId = cal_id cal \<and> d \<in> set (rangeDays (utcOffset env) rangeStart rangeEnd)
            then Some \<lparr>events = filter (\<lambda>x. groupKey (utcOffset env) x = d)
                                  (freshList (utcOffset env) (currentTime env) rangeStart rangeEnd fetched),
                        updated = currentTime env\<rparr>
            else cachedEvents st (d, calId))"
  using assms
  by (simp add: googleListEventsByCalendar_def Let_def returned_def stateAfter_def
        resolve_freshList populateLoop_closed groupedEvents_def)

theorem freshFetch_range_and_cache_witness:
  "returned (googleListEventsByCalendar 1 (exEnv [exTrip]) exCalendar
       (dayStart 0 19723) (dayStart 0 19724 + DAY - 1) [] [] exState) =
     Some [exTrip\<lparr>parent := Some exCalendar, summary := ''Trip (Day 1/3)'', eventType := ''multiDay''\<rparr>]
   \<and> cachedEvents (stateAfter exState (googleListEventsByCalendar 1 (exEnv [exTrip]) exCalendar
       (dayStart 0 19723) (dayStart 0 19724 + DAY - 1) [] [] exState)) (19723, ''c1'') =
     Some \<lparr>events = [exTrip\<lparr>parent := Some exCalendar, summary := ''Trip (Day 1/3)'',
                             eventType := ''multiDay''\<rparr>],
           updated = 1704096000000\<rparr>"
proof -
  have miss: "fst (checkForCachedEvents (utcOffset (exEnv [exTrip])) (currentTime (exEnv [exTrip]))
                (cachedEvents exState) (settings exState) exCalendar
                (dayStart 0 19723) (dayStart 0 19724 + DAY - 1)) = None"
    by code_simp
  have fetch: "requestEventsFromApi 1 (exEnv [exTrip]) exCalendar
                (dayStart 0 19723) (dayStart 0 19724 + DAY - 1) (notices exState) =
              Some (Inr [exTrip\<lparr>parent := Some exCalendar\<rparr>], [])"
    by code_simp
  have out: "filter (\<lambda>x. eventType x \<noteq> ''delete'' \<and> colorPass (exEnv [exTrip]) [] [] x)
               (freshList (utcOffset (exEnv [exTrip])) (currentTime (exEnv [exTrip]))
                  (dayStart 0 19723) (dayStart 0 19724 + DAY - 1) [exTrip\<lparr>parent := Some exCalendar\<rparr>]) =
             [exTrip\<lparr>parent := Some exCalendar, summary := ''Trip (Day 1/3)'', eventType := ''multiDay''\<rparr>]"
    by code_simp
  have grp: "filter (\<lambda>x. groupKey (utcOffset (exEnv [exTrip])) x = 19723)
               (freshList (utcOffset (exEnv [exTrip])) (currentTime (exEnv [exTrip]))
                  (dayStart 0 19723) (dayStart 0 19724 + DAY - 1) [exTrip\<lparr>parent := Some exCalendar\<rparr>]) =
             [exTrip\<lparr>parent := Some exCalendar, summary := ''Trip (Day 1/3)'', eventType := ''multiDay''\<rparr>]"
    by code_simp
  have rng: "19723 \<in> set (rangeDays (utcOffset (exEnv [exTrip])) (dayStart 0 19723) (dayStart 0 19724 + DAY - 1))"
    by code_simp
  have c: "cal_id exCalendar = ''c1''" "currentTime (exEnv [exTrip]) = 1704096000000"
    by (simp_all add: exCalendar_def exEnv_def)
  from freshFetch_range_and_cache [OF miss fetch, of "[]" "[]" 19723 "''c1''"]
  show ?thesis
    unfolding out grp using rng c by simp
qed

text \<open>
  C4 as stated fails: with the trip from Jan-01 to Jan-03 and the query Jan-01 to Jan-02,
  no bucket is written for Jan-03, a day of the span outside the range, and the bucket of
  Jan-02 holds no occurrence of the trip.
\<close>

theorem cache_full_span_counterexample:
  "cachedEvents (stateAfter exState
       (googleListEvents 1 (exEnv [exTrip]) (exQuery 19723 19724) exState)) (19725, ''c1'') = None
   \<and> map_option events (cachedEvents (stateAfter exState
       (googleListEvents 1 (exEnv [exTrip]) (exQuery 19723 19724) exState)) (19724, ''c1'')) = Some []"
  by code_simp

section \<open>Cancelled events\<close>

lemma requestLoop_clean:
  assumes "requestLoop fuel env cal s e prev acc ns = Some (Inr evs, ns')"
      and "\<forall>x\<in>set acc. status x \<noteq> ''cancelled''"
  shows "\<forall>x\<in>set evs. status x \<noteq> ''cancelled''"
  using assms
proof (induction fuel arbitrary: prev acc)
  case 0
  then show ?case by simp
next
  case (Suc fuel)
  from Suc.prems show ?case
    by (auto simp: Let_def split: option.splits if_splits dest!: Suc.IH)
qed

lemma requestEventsFromApi_clean:
  assumes "requestEventsFromApi fuel env cal s e ns = Some (Inr evs, ns')"
  shows "\<forall>x\<in>set evs. status x \<noteq> ''cancelled''"
  using assms requestLoop_clean [of fuel env cal s e None "[]" ns evs ns']
  by (auto simp: requestEventsFromApi_def split: if_splits)

lemma multiDayLoop_status:
  assumes "\<forall>x\<in>set extra. status x = status tmp"
  shows "status (fst (multiDayLoop tz title n endMoment tmp startMoment c extra)) = status tmp
       \<and> (\<forall>x\<in>set (snd (multiDayLoop tz title n endMoment tmp startMoment c extra)).
            status x = status tmp)"
  using assms
proof (induction tz title n endMoment tmp startMoment c extra rule: multiDayLoop.induct)
  case (1 tz title n endMoment tmp startMoment c extra)
  show ?case
  proof (cases "isAfter tz (startMoment + DAY) endMoment")
    case True
    then show ?thesis
      using "1.prems" by (subst (1 2) multiDayLoop.simps) (simp add: Let_def)
  next
    case False
    let ?tmp2 = "tmp\<lparr>summary := dayLabel title c n, eventType := ''multiDay'',
                   start := DateTime (formatMinute tz (startMoment + DAY))\<rparr>"
    let ?extra1 = "extra @ [tmp\<lparr>summary := dayLabel title c n, eventType := ''multiDay''\<rparr>]"
    have "status (fst (multiDayLoop tz title n endMoment ?tmp2 (startMoment + DAY) (c + 1) ?extra1))
            = status ?tmp2
        \<and> (\<forall>x\<in>set (snd (multiDayLoop tz title n endMoment ?tmp2 (startMoment + DAY) (c + 1) ?extra1)).
            status x = status ?tmp2)"
      using "1.prems" False by (intro "1.IH" [OF refl refl refl refl refl]) auto
    then show ?thesis
      using False by (subst (1 2) multiDayLoop.simps) (simp add: Let_def)
  qed
qed

lemma expandEvent_status:
  "status (fst (expandEvent tz now rs re e)) = status e
   \<and> (\<forall>x\<in>set (snd (expandEvent tz now rs re e)). status x = status e)"
proof (cases "dateTime (start e)")
  case None
  then show ?thesis by (simp add: expandEvent_def)
next
  case s: (Some s)
  show ?thesis
  proof (cases "dateTime (finish e)")
    case None
    then show ?thesis using s by (simp add: expandEvent_def)
  next
    case f: (Some f)
    show ?thesis
    proof (cases "isSame tz s f")
      case True
      then show ?thesis using s f by (simp add: expandEvent_def)
    next
      case False
      define r where "r = multiDayLoop tz (summary e) (diffDays (endOfDay tz f) (startOfDay tz s) + 1)
                            (endOfDay tz f) e (startOfDay tz s) 1 []"
      have "status (fst r) = status e \<and> (\<forall>x\<in>set (snd r). status x = status e)"
        unfolding r_def by (rule multiDayLoop_status) simp
      then have a: "status (fst r) = status e" and b: "\<And>x. x \<in> set (snd r) \<Longrightarrow> status x = status e"
        by blast+
      have eq: "expandEvent tz now rs re e =
          ((fst r)\<lparr>eventType := ''delete''\<rparr>, filter (inRange tz now rs re) (snd r))"
        unfolding expandEvent_def Let_def r_def
        by (simp only: s f option.case False if_False)
      show ?thesis
        unfolding eq fst_conv snd_conv
      proof (intro conjI ballI)
        show "status ((fst r)\<lparr>eventType := ''delete''\<rparr>) = status e"
          using a by simp
      next
        fix x
        assume "x \<in> set (filter (inRange tz now rs re) (snd r))"
        then have "x \<in> set (snd r)"
          by simp
        then show "status x = status e"
          by (rule b)
      qed
    qed
  qed
qed

lemma resolve_clean:
  assumes "\<forall>x\<in>set fetched. status x \<noteq> ''cancelled''"
  shows "\<forall>x\<in>set (resolveMultiDayEventsHelper tz now fetched rs re). status x \<noteq> ''cancelled''"
  using assms expandEvent_status [of tz now rs re]
  by (auto simp: resolveMultiDayEventsHelper_def Let_def)

lemma cacheCleanD:
  assumes "cacheClean c" and "c k = Some v" and "x \<in> set (events v)"
  shows "status x \<noteq> ''cancelled''"
  using assms unfolding cacheClean_def by blast

lemma bucket_clean:
  assumes "cacheClean c"
  shows "\<forall>x\<in>set (bucket c cid d). status x \<noteq> ''cancelled''"
proof (cases "c (d, cid)")
  case None
  then show ?thesis by (simp add: bucket_def)
next
  case (Some v)
  with cacheCleanD [OF assms Some] show ?thesis by (simp add: bucket_def)
qed

lemma checkForCachedEvents_clean:
  assumes "cacheClean c" and "fst (checkForCachedEvents tz now c sts cal s e) = Some evs"
  shows "\<forall>x\<in>set evs. status x \<noteq> ''cancelled''"
proof -
  from assms(2) have "evs = concat (map (bucket c (cal_id cal)) (rangeDays tz s e))"
    by (simp add: checkForCachedEvents_def checkLoop_fst split: if_splits)
  with bucket_clean [OF assms(1)] show ?thesis
    by auto
qed

lemma populateLoop_clean:
  assumes "cacheClean c" and "\<forall>d. \<forall>x\<in>set (g d). status x \<noteq> ''cancelled''"
  shows "cacheClean (populateLoop tz now g cid e cur c)"
  unfolding cacheClean_def
proof (intro allI impI)
  fix k v
  assume "populateLoop tz now g cid e cur c k = Some v"
  then have "populateLoop tz now g cid e cur c (fst k, snd k) = Some v"
    by simp
  then have "v = \<lparr>events = g (fst k), updated = now\<rparr> \<or> c k = Some v"
    unfolding populateLoop_closed by (auto split: if_splits)
  then show "\<forall>e\<in>set (events v). status e \<noteq> ''cancelled''"
  proof
    assume "v = \<lparr>events = g (fst k), updated = now\<rparr>"
    with assms(2) show ?thesis by simp
  next
    assume "c k = Some v"
    with cacheCleanD [OF assms(1)] show ?thesis by blast
  qed
qed

lemma byCalendar_clean:
  assumes "cacheClean (cachedEvents st)"
      and "googleListEventsByCalendar fuel env cal s e incC excC st = Some (r, st')"
  shows "cacheClean (cachedEvents st') \<and> (\<forall>evs. r = Inr evs \<longrightarrow> (\<forall>x\<in>set evs. status x \<noteq> ''cancelled''))"
proof (cases "fst (checkForCachedEvents (utcOffset env) (currentTime env) (cachedEvents st) (settings st) cal s e)")
  case (Some cached)
  from checkForCachedEvents_clean [OF assms(1) Some] assms Some show ?thesis
    by (auto simp: googleListEventsByCalendar_def Let_def)
next
  case None
  show ?thesis
  proof (cases "requestEventsFromApi fuel env cal s e (notices st)")
    case n: None
    with assms(2) None show ?thesis
      by (simp add: googleListEventsByCalendar_def Let_def)
  next
    case (Some a)
    obtain x ns where a: "a = (x, ns)" by (cases a)
    show ?thesis
    proof (cases x)
      case (Inl err)
      with assms None Some a show ?thesis
        by (auto simp: googleListEventsByCalendar_def Let_def)
    next
      case (Inr fetched)
      from Some a Inr have "\<forall>x\<in>set fetched. status x \<noteq> ''cancelled''"
        by (intro requestEventsFromApi_clean [of fuel env cal s e "notices st" fetched ns]) simp
      then have t: "\<forall>x\<in>set (resolveMultiDayEventsHelper (utcOffset env) (currentTime env) fetched (Some s) (Some e)).
                    status x \<noteq> ''cancelled''"
        by (rule resolve_clean)
      then have "cacheClean (populateLoop (utcOffset env) (currentTime env)
                   (groupedEvents (utcOffset env)
                      (resolveMultiDayEventsHelper (utcOffset env) (currentTime env) fetched (Some s) (Some e)))
                   (cal_id cal) e s (cachedEvents st))"
        using assms(1) by (intro populateLoop_clean) (auto simp: groupedEvents_def)
      with t assms(2) None Some a Inr show ?thesis
        by (auto simp: googleListEventsByCalendar_def Let_def)
    qed
  qed
qed

lemma calendarLoop_clean:
  assumes "cacheClean (cachedEvents st)"
      and "calendarLoop fuel env s e incC excC cals acc st = Some (r, st')"
      and "\<forall>x\<in>set acc. status x \<noteq> ''cancelled''"
  shows "cacheClean (cachedEvents st') \<and> (\<forall>evs. r = Inr evs \<longrightarrow> (\<forall>x\<in>set evs. status x \<noteq> ''cancelled''))"
  using assms
proof (induction cals arbitrary: acc st)
  case Nil
  then show ?case by auto
next
  case (Cons cal cals)
  show ?case
  proof (cases "googleListEventsByCalendar fuel env cal s e incC excC st")
    case None
    with Cons.prems(2) show ?thesis by simp
  next
    case (Some a)
    obtain x st1 where a: "a = (x, st1)" by (cases a)
    from byCalendar_clean [OF Cons.prems(1)] Some a
    have c1: "cacheClean (cachedEvents st1)"
      and x: "\<forall>evs. x = Inr evs \<longrightarrow> (\<forall>y\<in>set evs. status y \<noteq> ''cancelled'')"
      by blast+
    show ?thesis
    proof (cases x)
      case (Inl err)
      with Cons.prems(2) Some a c1 show ?thesis by auto
    next
      case (Inr evs)
      with Cons.prems(2) Some a
      have "calendarLoop fuel env s e incC excC cals (acc @ evs) st1 = Some (r, st')"
        by simp
      moreover from x Inr Cons.prems(3) have "\<forall>y\<in>set (acc @ evs). status y \<noteq> ''cancelled''"
        by auto
      ultimately show ?thesis
        using Cons.IH [OF c1] by blast
    qed
  qed
qed

lemma googleListEvents_clean:
  assumes "cacheClean (cachedEvents st)" and "googleListEvents fuel env opts st = Some (r, st')"
  shows "cacheClean (cachedEvents st') \<and> (\<forall>evs. r = Inr evs \<longrightarrow> (\<forall>x\<in>set evs. status x \<noteq> ''cancelled''))"
proof -
  from assms(2) obtain r0 where
    loop: "calendarLoop fuel env (queryStart env opts) (queryEnd env opts)
             (snd (includeSplit env opts)) (snd (excludeSplit env opts))
             (queryCalendars env opts) [] st = Some (r0, st')"
    and r: "r = (case r0 of Inl err \<Rightarrow> Inl err | Inr l \<Rightarrow> Inr (sort_key startInstant l))"
    unfolding googleListEvents_def
    by (auto split: option.splits sum.splits prod.splits)
  from calendarLoop_clean [OF assms(1) loop] r show ?thesis
    by (auto split: sum.splits)
qed

lemma reachable_clean: "reachable st \<Longrightarrow> cacheClean (cachedEvents st)"
proof (induction rule: reachable.induct)
  case (start st)
  then show ?case by (simp add: cacheClean_def)
next
  case (call st fuel env opts r st')
  from googleListEvents_clean [OF call.IH call.hyps(2)] show ?case
    by (rule conjunct1)
next
  case (clear st)
  show ?case by (simp add: googleClearCachedEvents_def cacheClean_def)
next
  case (other st sts ns)
  then show ?case by simp
qed

text \<open>
  C8. In every state the module can reach, a list returned by \<open>googleListEvents\<close> holds no
  event with status \<open>cancelled\<close>, whether it comes from the cache or from a fresh fetch:
  the page loop drops such events, so the list handed to the expander and the filters has
  none, and no bucket of the cache ever holds one.
\<close>

theorem no_cancelled_event_returned:
  assumes "reachable st" and "googleListEvents fuel env opts st = Some (Inr evs, st')"
  shows "(\<forall>e\<in>set evs. status e \<noteq> ''cancelled'')
       \<and> cacheClean (cachedEvents st')
       \<and> (\<forall>cal a b ns fetched ns'.
             requestEventsFromApi fuel env cal a b ns = Some (Inr fetched, ns') \<longrightarrow>
             (\<forall>e\<in>set fetched. status e \<noteq> ''cancelled''))"
proof (intro conjI allI impI)
  from googleListEvents_clean [OF reachable_clean [OF assms(1)] assms(2)]
  show "\<forall>e\<in>set evs. status e \<noteq> ''cancelled''" and "cacheClean (cachedEvents st')"
    by simp_all
next
  fix cal a b ns fetched ns'
  assume "requestEventsFromApi fuel env cal a b ns = Some (Inr fetched, ns')"
  then show "\<forall>e\<in>set fetched. status e \<noteq> ''cancelled''"
    by (rule requestEventsFromApi_clean)
qed

theorem no_cancelled_event_returned_witness:
  "map_option (map status)
     (returned (googleListEvents 1 (exEnv [exCancelled, exShortTrip]) (exQuery 19723 19725) exState))
     = Some [''confirmed'', ''confirmed'']
   \<and> (case returned (googleListEvents 1 (exEnv [exCancelled, exShortTrip]) (exQuery 19723 19725) exState) of
        Some evs \<Rightarrow> list_all (\<lambda>e. status e \<noteq> ''cancelled'') evs
      | None \<Rightarrow> False)
   \<and> status exCancelled = ''cancelled''"
proof -
  have run: "map_option (map status)
     (returned (googleListEvents 1 (exEnv [exCancelled, exShortTrip]) (exQuery 19723 19725) exState))
     = Some [''confirmed'', ''confirmed'']"
    by code_simp
  then obtain evs where
    evs: "returned (googleListEvents 1 (exEnv [exCancelled, exShortTrip]) (exQuery 19723 19725) exState) = Some evs"
    by auto
  then obtain st' where
    r: "googleListEvents 1 (exEnv [exCancelled, exShortTrip]) (exQuery 19723 19725) exState = Some (Inr evs, st')"
    using returned_SomeD by blast
  have "reachable exState"
    by (rule reachable.start) (simp add: exState_def)
  from no_cancelled_event_returned [OF this r]
  have "list_all (\<lambda>e. status e \<noteq> ''cancelled'') evs"
    unfolding list_all_iff by (rule conjunct1)
  with run evs show ?thesis
    by (simp add: exCancelled_def exEvent_def)
qed

section \<open>Concrete runs\<close>

text \<open>
  C5. The query from 2024-01-01 to 2024-01-03 against the one trip from Jan-01 14:00 to
  Jan-03 10:00 returns two occurrences, not three: \<open>(Day 3/3)\<close> starts on the day of the
  range end and is dropped by the range filter.
\<close>

theorem listEvents_three_day_trip:
  "returned (googleListEvents 1 (exEnv [exTrip]) (exQuery 19723 19725) exState) =
     Some [exTrip\<lparr>parent := Some exCalendar, summary := ''Trip (Day 1/3)'', eventType := ''multiDay''\<rparr>,
           exTrip\<lparr>parent := Some exCalendar, summary := ''Trip (Day 2/3)'', eventType := ''multiDay'',
                  start := DateTime 1704153600000\<rparr>]"
  by code_simp

text \<open>
  C2. When the transport fails, the notice is written, and then the loop condition reads
  the items of the missing result: the call ends with a TypeError and returns no list. A
  failure on the second page, after a full first page of 2500 events, ends the fetch the
  same way; the events of the first page are not returned.
\<close>

theorem transport_failure_throws:
  "thrown (googleListEvents 1 exOffline (exQuery 19723 19725) exState) = Some TypeError
   \<and> returned (googleListEvents 1 exOffline (exQuery 19723 19725) exState) = None
   \<and> notices (stateAfter exState (googleListEvents 1 exOffline (exQuery 19723 19725) exState))
       = [''Could not list Google Events'']
   \<and> requestEventsFromApi 2 exSecondPageFails exCalendar 1704067200000 1704326399999 [] =
       Some (Inl TypeError, [''Could not list Google Events''])"
proof -
  have first_page:
    "thrown (googleListEvents 1 exOffline (exQuery 19723 19725) exState) = Some TypeError
     \<and> returned (googleListEvents 1 exOffline (exQuery 19723 19725) exState) = None
     \<and> notices (stateAfter exState (googleListEvents 1 exOffline (exQuery 19723 19725) exState))
         = [''Could not list Google Events'']"
    by code_simp
  have two: "(2::nat) = Suc (Suc 0)"
    by simp
  have second_page:
    "requestEventsFromApi 2 exSecondPageFails exCalendar 1704067200000 1704326399999 [] =
       Some (Inl TypeError, [''Could not list Google Events''])"
    unfolding two requestEventsFromApi_def
    by (simp add: exSecondPageFails_def exEnv_def continuation_def resultSizes_def Let_def)
  from first_page second_page show ?thesis
    by simp
qed

text \<open>
  C1. The fresh fetch of the short trip returns its two occurrences. The second call, with
  a transport that is down, is served from the cache and returns three events: the third is
  the original, tagged \<open>delete\<close>.
\<close>

theorem cached_path_returns_superseded:
  "map_option (map eventType)
     (returned (googleListEvents 1 exOffline (exQuery 19723 19725) exAfterFirst))
   = Some [''multiDay'', ''multiDay'', ''delete'']
   \<and> map_option (map eventType)
     (returned (googleListEvents 1 (exEnv [exShortTrip]) (exQuery 19723 19725) exState))
   = Some [''multiDay'', ''multiDay'']"
  by code_simp

text \<open>
  C3. The same query in the same environment, asked again in the state the first call
  left, does not return what the first call returned.
\<close>

theorem second_call_differs:
  "returned (googleListEvents 1 (exEnv [exShortTrip]) (exQuery 19723 19725) exAfterFirst)
   \<noteq> returned (googleListEvents 1 (exEnv [exShortTrip]) (exQuery 19723 19725) exState)"
  by code_simp

section \<open>Further properties\<close>

text \<open>
  A list returned by a fresh fetch of a calendar holds no event tagged \<open>delete\<close>.
\<close>

theorem fresh_path_drops_superseded:
  assumes "fst (checkForCachedEvents (utcOffset env) (currentTime env) (cachedEvents st)
                  (settings st) cal rangeStart rangeEnd) = None"
      and "googleListEventsByCalendar fuel env cal rangeStart rangeEnd incC excC st = Some (Inr evs, st')"
  shows "\<forall>e\<in>set evs. eventType e \<noteq> ''delete''"
  using assms unfolding googleListEventsByCalendar_def Let_def
  by (auto split: option.splits sum.splits prod.splits)

theorem fresh_path_drops_superseded_witness:
  "map_option (map eventType)
     (returned (googleListEventsByCalendar 1 (exEnv [exShortTrip]) exCalendar
        (dayStart 0 19723) (dayStart 0 19725 + DAY - 1) [] [] exState))
     = Some [''multiDay'', ''multiDay'']
   \<and> (case returned (googleListEventsByCalendar 1 (exEnv [exShortTrip]) exCalendar
        (dayStart 0 19723) (dayStart 0 19725 + DAY - 1) [] [] exState) of
        Some evs \<Rightarrow> list_all (\<lambda>e. eventType e \<noteq> ''delete'') evs
      | None \<Rightarrow> False)"
proof -
  have miss: "fst (checkForCachedEvents (utcOffset (exEnv [exShortTrip])) (currentTime (exEnv [exShortTrip]))
                (cachedEvents exState) (settings exState) exCalendar
                (dayStart 0 19723) (dayStart 0 19725 + DAY - 1)) = None"
    by code_simp
  have run: "map_option (map eventType)
     (returned (googleListEventsByCalendar 1 (exEnv [exShortTrip]) exCalendar
        (dayStart 0 19723) (dayStart 0 19725 + DAY - 1) [] [] exState))
     = Some [''multiDay'', ''multiDay'']"
    by code_simp
  then obtain evs where
    evs: "returned (googleListEventsByCalendar 1 (exEnv [exShortTrip]) exCalendar
        (dayStart 0 19723) (dayStart 0 19725 + DAY - 1) [] [] exState) = Some evs"
    by auto
  then obtain st' where
    "googleListEventsByCalendar 1 (exEnv [exShortTrip]) exCalendar
        (dayStart 0 19723) (dayStart 0 19725 + DAY - 1) [] [] exState = Some (Inr evs, st')"
    using returned_SomeD by blast
  from fresh_path_drops_superseded [OF miss this]
  have "list_all (\<lambda>e. eventType e \<noteq> ''delete'') evs"
    by (simp add: list_all_iff)
  with run evs show ?thesis
    by simp
qed

text \<open>
  On any page, whatever has been accumulated: when the request of that page fails, the
  fetch ends with a TypeError after the notice, and the accumulated events are not
  returned.
\<close>

theorem failed_page_discards_fetch:
  assumes "callRequest env \<lparr>req_calendar = cal_id cal, timeMin = s, timeMax = e,
                             pageToken = continuation prev\<rparr> = None"
  shows "requestLoop (Suc fuel) env cal s e prev acc ns =
           Some (Inl TypeError, ns @ [''Could not list Google Events''])"
  using assms by simp

theorem failed_page_discards_fetch_witness:
  "requestLoop (Suc 0) exOffline exCalendar 0 1 None [exTrip] [] =
     Some (Inl TypeError, [''Could not list Google Events''])"
proof -
  have "callRequest exOffline \<lparr>req_calendar = cal_id exCalendar, timeMin = 0, timeMax = 1,
                             pageToken = continuation None\<rparr> = None"
    by (simp add: exOffline_def)
  from failed_page_discards_fetch [OF this, of 0 "[exTrip]" "[]"] show ?thesis
    by simp
qed

lemma requestEventsFromApi_returns:
  assumes "shortPages env"
  shows "\<exists>evs. requestEventsFromApi (Suc fuel) env cal s e ns = Some (Inr evs, ns)"
proof -
  obtain p where "callRequest env \<lparr>req_calendar = cal_id cal, timeMin = s, timeMax = e,
                             pageToken = continuation None\<rparr> = Some p" and "length (items p) \<noteq> resultSizes"
    using assms unfolding shortPages_def by blast
  then show ?thesis
    by (simp add: requestEventsFromApi_def Let_def)
qed

lemma byCalendar_returns:
  assumes "shortPages env"
  shows "\<exists>evs st'. googleListEventsByCalendar (Suc fuel) env cal s e incC excC st = Some (Inr evs, st')"
proof (cases "fst (checkForCachedEvents (utcOffset env) (currentTime env) (cachedEvents st) (settings st) cal s e)")
  case (Some a)
  then show ?thesis
    by (simp add: googleListEventsByCalendar_def Let_def)
next
  case None
  obtain evs where "requestEventsFromApi (Suc fuel) env cal s e
      (notices (st\<lparr>settings := snd (checkForCachedEvents (utcOffset env) (currentTime env) (cachedEvents st) (settings st) cal s e)\<rparr>))
      = Some (Inr evs, notices (st\<lparr>settings := snd (checkForCachedEvents (utcOffset env) (currentTime env) (cachedEvents st) (settings st) cal s e)\<rparr>))"
    using requestEventsFromApi_returns [OF assms] by blast
  with None show ?thesis
    by (simp add: googleListEventsByCalendar_def Let_def)
qed

lemma calendarLoop_returns:
  assumes "shortPages env"
  shows "\<exists>evs st'. calendarLoop (Suc fuel) env s e incC excC cals acc st = Some (Inr evs, st')"
proof (induction cals arbitrary: acc st)
  case Nil
  show ?case by simp
next
  case (Cons cal cals)
  obtain evs st1 where "googleListEventsByCalendar (Suc fuel) env cal s e incC excC st = Some (Inr evs, st1)"
    using byCalendar_returns [OF assms] by blast
  with Cons.IH [of "acc @ evs" st1] show ?case
    by simp
qed

text \<open>
  When the transport answers every request with a page shorter than the page size,
  \<open>googleListEvents\<close> returns a list; one unit of fuel is enough, since each calendar
  then takes at most one request.
\<close>

theorem googleListEvents_returns:
  assumes "shortPages env"
  shows "\<exists>evs st'. googleListEvents (Suc fuel) env opts st = Some (Inr evs, st')"
proof -
  obtain l st' where "calendarLoop (Suc fuel) env (queryStart env opts) (queryEnd env opts)
             (snd (includeSplit env opts)) (snd (excludeSplit env opts))
             (queryCalendars env opts) [] st = Some (Inr l, st')"
    using calendarLoop_returns [OF assms] by blast
  then show ?thesis
    by (simp add: googleListEvents_def)
qed

theorem googleListEvents_returns_witness:
  "shortPages (exEnv [exTrip])
   \<and> returned (googleListEvents (Suc 0) (exEnv [exTrip]) (exQuery 19723 19723) exState) \<noteq> None"
proof -
  have sp: "shortPages (exEnv [exTrip])"
    by (simp add: shortPages_def exEnv_def resultSizes_def)
  from googleListEvents_returns [OF sp, of 0 "exQuery 19723 19723" exState] sp
  show ?thesis
    by (auto simp: returned_def)
qed

end
